theory Spec2Isabelle
  imports Main "HOL-Library.Word" "HOL-Library.Signed_Division"
begin

text \<open>
  The reverse proxy of \<^verbatim>\<open>proxy/main.go\<close>: its package-level state, the selection of a
  backend, the request handler, the control handlers, the start and stop of backend
  processes and the health monitor, as functions on an explicit state; what the
  operating system and the network contribute (dial and kill outcomes, file contents,
  the upstream response) is passed in. Each handler body runs as one step.
\<close>

section \<open>Data model of the reverse proxy (proxy/main.go)\<close>

text \<open>
  The Go type \<^verbatim>\<open>LoadBalancingStrategy\<close> is a string type with two named constants.
  The global \<^verbatim>\<open>strategy\<close> is compared against these constants only.
\<close>

type_synonym LoadBalancingStrategy = string

definition StrategyRoundRobin :: LoadBalancingStrategy where
  "StrategyRoundRobin = ''round_robin''"

definition StrategyLeastConnections :: LoadBalancingStrategy where
  "StrategyLeastConnections = ''least_connections''"

text \<open>
  \<^verbatim>\<open>Backend\<close>: \<^verbatim>\<open>URL\<close> is kept as the host:port text, \<^verbatim>\<open>LastSeen\<close> as a clock
  reading, \<^verbatim>\<open>Cmd\<close> as an optional handle of a spawned child process (the code only
  ever stores a command whose \<^verbatim>\<open>Start\<close> succeeded, so a stored command always has a
  process), and \<^verbatim>\<open>ActiveRequests\<close> as the \<^verbatim>\<open>int64\<close> it is.
\<close>

record Backend =
  Name :: string
  URL :: string
  Healthy :: bool
  LastSeen :: nat
  Cmd :: "nat option"
  ActiveRequests :: "64 word"

text \<open>Lines written with \<^verbatim>\<open>log.Printf\<close> / \<^verbatim>\<open>log.Println\<close>, one constructor per call site.\<close>

datatype LogEvent =
    LogSelectedLeastConn string "64 word"
  | LogSelectedRR string "64 word"
  | LogStartingRequest string "64 word"
  | LogFinishedRequest string "64 word"
  | LogProxyDisabled
  | LogProxyEnabled
  | LogStrategyChanged string
  | LogRestarting string
  | LogStarting string
  | LogManuallyStopped string
  | LogBuildingBinary
  | LogBuildError
  | LogCouldNotStart string
  | LogAutomaticallyStarted string
  | LogSaveFailed
  | LogLoadFailed
  | LogDecodeFailed
  | LogLoadedStrategy string
  | LogNotAvailable string string
  | LogAvailableAgain string string
  | LogConfigError
  | LogURLError
  | LogProxyRunning

text \<open>
  The package-level variables \<^verbatim>\<open>backends\<close>, \<^verbatim>\<open>counter\<close> (\<^verbatim>\<open>uint64\<close>),
  \<^verbatim>\<open>proxyActive\<close> and \<^verbatim>\<open>strategy\<close>, together with what the program has written to
  its log and the process handles it has sent a kill to.
\<close>

record ProxyState =
  backends :: "Backend list"
  counter :: "64 word"
  proxyActive :: bool
  strategy :: LoadBalancingStrategy
  logs :: "LogEvent list"
  kills :: "nat list"

section \<open>Backend selection\<close>

text \<open>
  The slice \<^verbatim>\<open>healthy\<close> holds pointers into \<^verbatim>\<open>backends\<close>; it is modelled by the
  positions of the healthy entries, in configuration order.
\<close>

definition healthyIdx :: "Backend list \<Rightarrow> nat list" where
  "healthyIdx bs = filter (\<lambda>i. Healthy (bs ! i)) [0..<length bs]"

text \<open>
  The least-connections scan, with its two loop variables \<^verbatim>\<open>best\<close> and
  \<^verbatim>\<open>minActive\<close>; \<^verbatim>\<open>minActive\<close> starts at \<^verbatim>\<open>-1\<close>, and the comparison is the signed one
  of \<^verbatim>\<open>int64\<close>.
\<close>

fun leastConnScan :: "Backend list \<Rightarrow> nat list \<Rightarrow> nat option \<Rightarrow> 64 word \<Rightarrow> nat option" where
  "leastConnScan bs [] best minActive = best"
| "leastConnScan bs (i # rest) best minActive =
     (if minActive = - 1 \<or> ActiveRequests (bs ! i) <s minActive
      then leastConnScan bs rest (Some i) (ActiveRequests (bs ! i))
      else leastConnScan bs rest best minActive)"

text \<open>\<^verbatim>\<open>atomic.AddInt64(&b.ActiveRequests, d)\<close> on the backend at position \<open>i\<close>.\<close>

definition addActive :: "nat \<Rightarrow> 64 word \<Rightarrow> Backend list \<Rightarrow> Backend list" where
  "addActive i d bs = bs[i := (bs ! i)\<lparr>ActiveRequests := ActiveRequests (bs ! i) + d\<rparr>]"

text \<open>
  What a call of \<^verbatim>\<open>getNextHealthyBackend\<close> yields: \<^verbatim>\<open>nil\<close>, a backend (by position), or
  the run-time panic of an index expression out of range.
\<close>

datatype Selection = NoBackend | Picked nat | IndexOutOfRange int

text \<open>
  \<^verbatim>\<open>getNextHealthyBackend\<close>, one critical section of the mutex. In the round-robin
  branch \<^verbatim>\<open>int(atomic.AddUint64(&counter, 1)) % len(healthy)\<close> converts the incremented
  \<^verbatim>\<open>uint64\<close> to the 64-bit \<^verbatim>\<open>int\<close> (two's complement, \<open>sint\<close>) and takes Go's
  remainder, which truncates towards zero (\<open>smod\<close>); indexing the slice with a value
  outside \<open>0 \<le> index < len\<close> panics.
\<close>

definition getNextHealthyBackend :: "ProxyState \<Rightarrow> Selection \<times> ProxyState" where
  "getNextHealthyBackend st =
     (let healthy = healthyIdx (backends st) in
      if length healthy = 0 then (NoBackend, st)
      else if strategy st = StrategyLeastConnections then
        (case leastConnScan (backends st) healthy None (- 1) of
           None \<Rightarrow> (NoBackend, st)
         | Some best \<Rightarrow>
             (let bs' = addActive best 1 (backends st) in
              (Picked best,
               st\<lparr>backends := bs',
                  logs := logs st @
                    [LogSelectedLeastConn (Name (bs' ! best)) (ActiveRequests (bs' ! best))]\<rparr>)))
      else
        (let c = counter st + 1;
             index = sint c smod int (length healthy);
             st1 = st\<lparr>counter := c\<rparr>
         in if index < 0 \<or> int (length healthy) \<le> index then (IndexOutOfRange index, st1)
            else
              (let b = healthy ! nat index;
                   bs' = addActive b 1 (backends st1)
               in (Picked b,
                   st1\<lparr>backends := bs',
                       logs := logs st1 @
                         [LogSelectedRR (Name (bs' ! b)) (ActiveRequests (bs' ! b))]\<rparr>))))"

section \<open>The request handler\<close>

text \<open>The outcome of \<^verbatim>\<open>http.DefaultTransport.RoundTrip\<close>: an error text or a status code.\<close>

datatype Upstream = UpstreamFailed string | UpstreamReplied nat

text \<open>
  What the client gets: \<^verbatim>\<open>http.Error\<close> with a status and a text, the relayed upstream
  response, a JSON message of a control endpoint, or no response because the handler
  panicked.
\<close>

datatype Response =
    HttpError nat string
  | Relayed nat
  | JsonMessage string
  | HandlerPanicked

definition StatusBadRequest :: nat where "StatusBadRequest = 400"
definition StatusNotFound :: nat where "StatusNotFound = 404"
definition StatusInternalServerError :: nat where "StatusInternalServerError = 500"
definition StatusBadGateway :: nat where "StatusBadGateway = 502"
definition StatusServiceUnavailable :: nat where "StatusServiceUnavailable = 503"

text \<open>
  The part of \<^verbatim>\<open>handleRequest\<close> after a backend was selected and the deferred
  release was registered: the round trip, answered with bad-gateway on error; the
  upstream status is relayed with \<^verbatim>\<open>w.WriteHeader\<close>, which panics for a status code
  below 100 or above 999.
\<close>

definition forward :: "Upstream \<Rightarrow> Response" where
  "forward up =
     (case up of
        UpstreamFailed err \<Rightarrow> HttpError StatusBadGateway err
      | UpstreamReplied code \<Rightarrow>
          if code < 100 \<or> 999 < code then HandlerPanicked else Relayed code)"

text \<open>The deferred function of \<^verbatim>\<open>handleRequest\<close>: add \<^verbatim>\<open>-1\<close> and log.\<close>

definition release :: "nat \<Rightarrow> ProxyState \<Rightarrow> ProxyState" where
  "release b st =
     (let bs' = addActive b (- 1) (backends st) in
      st\<lparr>backends := bs',
         logs := logs st @ [LogFinishedRequest (Name (bs' ! b)) (ActiveRequests (bs' ! b))]\<rparr>)"

text \<open>
  \<^verbatim>\<open>handleRequest\<close>. The deferred release runs on both returns that follow its
  registration, and on a panic of the forwarding part; the two returns before it (gate
  closed, no backend) and a panic inside the selection leave without it.
\<close>

definition handleRequest :: "Upstream \<Rightarrow> ProxyState \<Rightarrow> Response \<times> ProxyState" where
  "handleRequest up st =
     (if \<not> proxyActive st
      then (HttpError StatusServiceUnavailable ''Proxy is currently paused'', st)
      else
        (case getNextHealthyBackend st of
           (NoBackend, st1) \<Rightarrow>
             (HttpError StatusServiceUnavailable ''No healthy backend available'', st1)
         | (IndexOutOfRange k, st1) \<Rightarrow> (HandlerPanicked, st1)
         | (Picked b, st1) \<Rightarrow>
             (let st2 = st1\<lparr>logs := logs st1 @
                          [LogStartingRequest (Name (backends st1 ! b))
                             (ActiveRequests (backends st1 ! b))]\<rparr>
              in (forward up, release b st2))))"

definition handleProxyPause :: "ProxyState \<Rightarrow> Response \<times> ProxyState" where
  "handleProxyPause st =
     (JsonMessage ''paused'', st\<lparr>proxyActive := False, logs := logs st @ [LogProxyDisabled]\<rparr>)"

definition handleProxyResume :: "ProxyState \<Rightarrow> Response \<times> ProxyState" where
  "handleProxyResume st =
     (JsonMessage ''active'', st\<lparr>proxyActive := True, logs := logs st @ [LogProxyEnabled]\<rparr>)"

text \<open>
  A number of consecutive calls of \<^verbatim>\<open>getNextHealthyBackend\<close> with nothing else
  running in between, each on the state the previous one left.
\<close>

fun consecutiveSelections :: "nat \<Rightarrow> ProxyState \<Rightarrow> Selection list \<times> ProxyState" where
  "consecutiveSelections 0 st = ([], st)"
| "consecutiveSelections (Suc n) st =
     (case getNextHealthyBackend st of
        (r, st1) \<Rightarrow>
          (case consecutiveSelections n st1 of (rs, st2) \<Rightarrow> (r # rs, st2)))"

section \<open>Strategy endpoint and persistence\<close>

text \<open>
  What \<^verbatim>\<open>os.Open("strategy.json")\<close> followed by the JSON decoder gives: no such file,
  another error of opening, an error of decoding, or the decoded \<^verbatim>\<open>strategy\<close> field
  (the empty string when the document has no such field).
\<close>

datatype StrategyFile =
    FileNotExist
  | FileOpenError
  | FileDecodeError
  | FileDecoded string

text \<open>\<^verbatim>\<open>loadStrategy\<close>: it has no fatal exit; every path returns to \<^verbatim>\<open>main\<close>.\<close>

definition loadStrategy :: "StrategyFile \<Rightarrow> ProxyState \<Rightarrow> ProxyState" where
  "loadStrategy f st =
     (case f of
        FileNotExist \<Rightarrow> st
      | FileOpenError \<Rightarrow> st\<lparr>logs := logs st @ [LogLoadFailed]\<rparr>
      | FileDecodeError \<Rightarrow> st\<lparr>logs := logs st @ [LogDecodeFailed]\<rparr>
      | FileDecoded s \<Rightarrow>
          (let st1 =
                 (if s = StrategyRoundRobin then st\<lparr>strategy := StrategyRoundRobin\<rparr>
                  else if s = StrategyLeastConnections
                  then st\<lparr>strategy := StrategyLeastConnections\<rparr>
                  else st)
           in st1\<lparr>logs := logs st1 @ [LogLoadedStrategy (strategy st1)]\<rparr>))"

text \<open>
  \<^verbatim>\<open>saveStrategy\<close> writes a file; of that only the log line of a failed
  \<^verbatim>\<open>os.Create\<close> is visible in the state.
\<close>

definition saveStrategy :: "bool \<Rightarrow> ProxyState \<Rightarrow> ProxyState" where
  "saveStrategy createOk st = (if createOk then st else st\<lparr>logs := logs st @ [LogSaveFailed]\<rparr>)"

text \<open>
  A request to \<^verbatim>\<open>/api/proxy/strategy\<close>: not a POST, a POST whose body does not decode,
  or a POST with the decoded \<^verbatim>\<open>strategy\<close> field.
\<close>

datatype StrategyRequest = StrategyGet | StrategyPostBad string | StrategyPost string

definition handleProxyStrategy ::
    "bool \<Rightarrow> StrategyRequest \<Rightarrow> ProxyState \<Rightarrow> Response \<times> ProxyState" where
  "handleProxyStrategy createOk req st =
     (case req of
        StrategyGet \<Rightarrow> (JsonMessage (strategy st), st)
      | StrategyPostBad err \<Rightarrow> (HttpError StatusBadRequest err, st)
      | StrategyPost s \<Rightarrow>
          (if s = StrategyRoundRobin \<or> s = StrategyLeastConnections then
             (let st1 = saveStrategy createOk (st\<lparr>strategy := s\<rparr>);
                  st2 = st1\<lparr>logs := logs st1 @ [LogStrategyChanged (strategy st1)]\<rparr>
              in (JsonMessage (strategy st2), st2))
           else (HttpError StatusBadRequest ''Invalid strategy'', st)))"

section \<open>Process lifecycle\<close>

text \<open>
  The operating system as \<^verbatim>\<open>startBackend\<close> meets it: whether \<^verbatim>\<open>os.Stat\<close> reports the
  backend binary as not existing, whether the build command runs without error, and
  what \<^verbatim>\<open>cmd.Start\<close> gives (the handle of the new process, or an error).
\<close>

record StartEnv =
  binaryMissing :: bool
  buildOk :: bool
  spawned :: "nat option"

text \<open>
  \<^verbatim>\<open>log.Fatalf\<close> writes the line and calls \<^verbatim>\<open>os.Exit(1)\<close>: the proxy process is gone.
  A function that can reach it yields \<open>ProcessExited\<close> with the last state, or
  \<open>Continues\<close> with its result.
\<close>

datatype 'a Outcome = ProcessExited ProxyState | Continues 'a

definition setCmd :: "nat \<Rightarrow> nat option \<Rightarrow> Backend list \<Rightarrow> Backend list" where
  "setCmd i c bs = bs[i := (bs ! i)\<lparr>Cmd := c\<rparr>]"

definition setHealthy :: "nat \<Rightarrow> bool \<Rightarrow> Backend list \<Rightarrow> Backend list" where
  "setHealthy i h bs = bs[i := (bs ! i)\<lparr>Healthy := h\<rparr>]"

text \<open>\<^verbatim>\<open>startBackend(b)\<close> for the backend at position \<open>i\<close>.\<close>

definition startBackend :: "StartEnv \<Rightarrow> nat \<Rightarrow> ProxyState \<Rightarrow> ProxyState Outcome" where
  "startBackend env i st =
     (let st1 = (if binaryMissing env then st\<lparr>logs := logs st @ [LogBuildingBinary]\<rparr> else st)
      in if binaryMissing env \<and> \<not> buildOk env
         then ProcessExited (st1\<lparr>logs := logs st1 @ [LogBuildError]\<rparr>)
         else
           (case spawned env of
              None \<Rightarrow>
                Continues (st1\<lparr>logs := logs st1 @ [LogCouldNotStart (Name (backends st1 ! i))]\<rparr>)
            | Some h \<Rightarrow>
                Continues
                  (st1\<lparr>backends := setCmd i (Some h) (backends st1),
                       logs := logs st1 @ [LogAutomaticallyStarted (Name (backends st1 ! i))]\<rparr>)))"

text \<open>
  The loop of \<^verbatim>\<open>handleStartOrRestartBackend\<close> over the backends (by position): the
  first one with the given name is killed if it has a process (the error of \<^verbatim>\<open>Kill\<close>
  is dropped) and started; with none, not-found. Texts that the code formats with the
  name are given without it.
\<close>

fun startOrRestartLoop ::
    "StartEnv \<Rightarrow> string \<Rightarrow> nat list \<Rightarrow> ProxyState \<Rightarrow> (Response \<times> ProxyState) Outcome" where
  "startOrRestartLoop env name [] st =
     Continues (HttpError StatusNotFound ''Backend nicht gefunden'', st)"
| "startOrRestartLoop env name (i # rest) st =
     (if Name (backends st ! i) = name then
        (let st1 =
               (case Cmd (backends st ! i) of
                  Some h \<Rightarrow>
                    st\<lparr>logs := logs st @ [LogRestarting (Name (backends st ! i))],
                       kills := kills st @ [h]\<rparr>
                | None \<Rightarrow> st\<lparr>logs := logs st @ [LogStarting (Name (backends st ! i))]\<rparr>)
         in (case startBackend env i st1 of
               ProcessExited st2 \<Rightarrow> ProcessExited st2
             | Continues st2 \<Rightarrow>
                 Continues (JsonMessage ''Backend gestartet/neu gestartet'', st2)))
      else startOrRestartLoop env name rest st)"

definition handleStartOrRestartBackend ::
    "StartEnv \<Rightarrow> string \<Rightarrow> ProxyState \<Rightarrow> (Response \<times> ProxyState) Outcome" where
  "handleStartOrRestartBackend env name st =
     (if name = [] then Continues (HttpError StatusBadRequest ''Parameter name missing'', st)
      else startOrRestartLoop env name [0..<length (backends st)] st)"

text \<open>
  The loop of \<^verbatim>\<open>handleStopBackend\<close>; \<open>killOk h\<close> tells whether \<^verbatim>\<open>Process.Kill\<close> on
  the handle \<open>h\<close> returns without error. A backend with the name but without a process is
  passed over and the loop goes on.
\<close>

fun stopLoop ::
    "(nat \<Rightarrow> bool) \<Rightarrow> string \<Rightarrow> nat list \<Rightarrow> ProxyState \<Rightarrow> Response \<times> ProxyState" where
  "stopLoop killOk name [] st =
     (HttpError StatusNotFound ''Backend nicht gefunden oder bereits gestoppt'', st)"
| "stopLoop killOk name (i # rest) st =
     (if Name (backends st ! i) = name then
        (case Cmd (backends st ! i) of
           Some h \<Rightarrow>
             (let st1 = st\<lparr>kills := kills st @ [h]\<rparr> in
              if \<not> killOk h
              then (HttpError StatusInternalServerError ''Fehler beim Stoppen'', st1)
              else
                (JsonMessage ''Backend gestoppt'',
                 st1\<lparr>backends := setHealthy i False (backends st1),
                     logs := logs st1 @ [LogManuallyStopped (Name (backends st1 ! i))]\<rparr>))
         | None \<Rightarrow> stopLoop killOk name rest st)
      else stopLoop killOk name rest st)"

definition handleStopBackend ::
    "(nat \<Rightarrow> bool) \<Rightarrow> string \<Rightarrow> ProxyState \<Rightarrow> Response \<times> ProxyState" where
  "handleStopBackend killOk name st =
     (if name = [] then (HttpError StatusBadRequest ''Parameter name fehlt'', st)
      else stopLoop killOk name [0..<length (backends st)] st)"

section \<open>Health monitor\<close>

text \<open>
  The body of the inner loop of \<^verbatim>\<open>healthMonitor\<close> for one backend, from taking the
  lock to releasing it: \<open>connected\<close> tells whether \<^verbatim>\<open>net.DialTimeout\<close> returned without
  error, \<open>now\<close> is the reading of \<^verbatim>\<open>time.Now()\<close>. The result is the backend and the
  lines logged.
\<close>

definition probeBackend :: "bool \<Rightarrow> nat \<Rightarrow> Backend \<Rightarrow> Backend \<times> LogEvent list" where
  "probeBackend connected now b =
     (if \<not> connected then
        (b\<lparr>Healthy := False\<rparr>, if Healthy b then [LogNotAvailable (Name b) (URL b)] else [])
      else
        (b\<lparr>Healthy := True, LastSeen := now\<rparr>,
         if \<not> Healthy b then [LogAvailableAgain (Name b) (URL b)] else []))"

definition healthMonitorStep :: "bool \<Rightarrow> nat \<Rightarrow> nat \<Rightarrow> ProxyState \<Rightarrow> ProxyState" where
  "healthMonitorStep connected now i st =
     (case probeBackend connected now (backends st ! i) of
        (b', lines) \<Rightarrow> st\<lparr>backends := (backends st)[i := b'], logs := logs st @ lines\<rparr>)"

text \<open>
  One pass of the inner loop over all backends; \<open>dial i\<close> is the outcome of the dial and
  the clock reading for the backend at position \<open>i\<close>.
\<close>

fun healthMonitorPass :: "(nat \<Rightarrow> bool \<times> nat) \<Rightarrow> nat list \<Rightarrow> ProxyState \<Rightarrow> ProxyState" where
  "healthMonitorPass dial [] st = st"
| "healthMonitorPass dial (i # rest) st =
     healthMonitorPass dial rest (healthMonitorStep (fst (dial i)) (snd (dial i)) i st)"

definition healthMonitorCycle :: "(nat \<Rightarrow> bool \<times> nat) \<Rightarrow> ProxyState \<Rightarrow> ProxyState" where
  "healthMonitorCycle dial st = healthMonitorPass dial [0..<length (backends st)] st"

section \<open>The running proxy as a sequence of events\<close>

text \<open>
  What can happen to the running proxy, each with what the environment contributes: a
  request to \<^verbatim>\<open>/proxy/\<close>, the control endpoints, and one step of the health monitor.
\<close>

datatype Event =
    EvRequest Upstream
  | EvPause
  | EvResume
  | EvStrategy bool StrategyRequest
  | EvStart StartEnv string
  | EvStop "nat \<Rightarrow> bool" string
  | EvProbe bool nat nat

definition step :: "Event \<Rightarrow> ProxyState \<Rightarrow> (Response option \<times> ProxyState) Outcome" where
  "step ev st =
     (case ev of
        EvRequest up \<Rightarrow> (case handleRequest up st of (r, st1) \<Rightarrow> Continues (Some r, st1))
      | EvPause \<Rightarrow> (case handleProxyPause st of (r, st1) \<Rightarrow> Continues (Some r, st1))
      | EvResume \<Rightarrow> (case handleProxyResume st of (r, st1) \<Rightarrow> Continues (Some r, st1))
      | EvStrategy createOk req \<Rightarrow>
          (case handleProxyStrategy createOk req st of (r, st1) \<Rightarrow> Continues (Some r, st1))
      | EvStart env name \<Rightarrow>
          (case handleStartOrRestartBackend env name st of
             ProcessExited st1 \<Rightarrow> ProcessExited st1
           | Continues (r, st1) \<Rightarrow> Continues (Some r, st1))
      | EvStop killOk name \<Rightarrow>
          (case handleStopBackend killOk name st of (r, st1) \<Rightarrow> Continues (Some r, st1))
      | EvProbe connected now i \<Rightarrow>
          Continues (None, if i < length (backends st)
                           then healthMonitorStep connected now i st else st))"

text \<open>
  Running a list of events: the answers given so far (one entry per event served) and
  the state reached; the run ends early when the process exits.
\<close>

fun run :: "Event list \<Rightarrow> ProxyState \<Rightarrow> Response option list \<times> ProxyState" where
  "run [] st = ([], st)"
| "run (ev # evs) st =
     (case step ev st of
        ProcessExited st1 \<Rightarrow> ([], st1)
      | Continues (r, st1) \<Rightarrow> (case run evs st1 of (rs, st2) \<Rightarrow> (r # rs, st2)))"

section \<open>Startup\<close>

text \<open>
  \<^verbatim>\<open>Config\<close>, one entry of \<^verbatim>\<open>config.json\<close>, and what \<^verbatim>\<open>loadConfig\<close> returns: an error or
  the entries.
\<close>

record Config =
  cfgName :: string
  cfgPort :: int

datatype ConfigFile = ConfigError | ConfigLoaded "Config list"

text \<open>
  What \<^verbatim>\<open>main\<close> finds when it starts: the two files, for every entry the host text of
  the URL that \<^verbatim>\<open>url.Parse\<close> makes of its port (or none when parsing fails), and for the
  backend at every position what \<^verbatim>\<open>startBackend\<close> meets.
\<close>

record StartupEnv =
  configFile :: ConfigFile
  strategyFile :: StrategyFile
  parseURL :: "Config \<Rightarrow> string option"
  startEnv :: "nat \<Rightarrow> StartEnv"

text \<open>The package-level variables before \<^verbatim>\<open>main\<close> has run: the zero values and the default strategy.\<close>

definition initialState :: ProxyState where
  "initialState = \<lparr>backends = [], counter = 0, proxyActive = False,
                     strategy = StrategyRoundRobin, logs = [], kills = []\<rparr>"

text \<open>\<^verbatim>\<open>newBackend\<close>: a fatal log when the URL does not parse, else the new entry.\<close>

definition newBackend :: "(Config \<Rightarrow> string option) \<Rightarrow> Config \<Rightarrow> Backend option" where
  "newBackend parse cfg =
     (case parse cfg of
        None \<Rightarrow> None
      | Some host \<Rightarrow>
          Some \<lparr>Name = cfgName cfg, URL = host, Healthy = False, LastSeen = 0, Cmd = None,
                ActiveRequests = 0\<rparr>)"

text \<open>The loop of \<^verbatim>\<open>main\<close> that creates, appends and starts one backend per entry.\<close>

fun startAll :: "StartupEnv \<Rightarrow> Config list \<Rightarrow> ProxyState \<Rightarrow> ProxyState Outcome" where
  "startAll env [] st = Continues st"
| "startAll env (cfg # cfgs) st =
     (case newBackend (parseURL env) cfg of
        None \<Rightarrow> ProcessExited (st\<lparr>logs := logs st @ [LogURLError]\<rparr>)
      | Some b \<Rightarrow>
          (let st1 = st\<lparr>backends := backends st @ [b]\<rparr> in
           case startBackend (startEnv env (length (backends st))) (length (backends st)) st1 of
             ProcessExited st2 \<Rightarrow> ProcessExited st2
           | Continues st2 \<Rightarrow> startAll env cfgs st2))"

text \<open>
  \<^verbatim>\<open>main\<close> up to the point where the handlers are registered and the gate is open;
  the health monitor and the listener run from there.
\<close>

definition mainStartup :: "StartupEnv \<Rightarrow> ProxyState Outcome" where
  "mainStartup env =
     (case configFile env of
        ConfigError \<Rightarrow> ProcessExited (initialState\<lparr>logs := [LogConfigError]\<rparr>)
      | ConfigLoaded cfgs \<Rightarrow>
          (case startAll env cfgs (loadStrategy (strategyFile env) initialState) of
             ProcessExited st \<Rightarrow> ProcessExited st
           | Continues st \<Rightarrow>
               Continues (st\<lparr>proxyActive := True, logs := logs st @ [LogProxyRunning]\<rparr>)))"

text \<open>Whether a computation ended in the exit of the process.\<close>

definition exited :: "'a Outcome \<Rightarrow> bool" where
  "exited out = (case out of ProcessExited _ \<Rightarrow> True | Continues _ \<Rightarrow> False)"

text \<open>Two states that differ at most in the strategy and in the log.\<close>

definition sameButStrategy :: "ProxyState \<Rightarrow> ProxyState \<Rightarrow> bool" where
  "sameButStrategy st st' \<longleftrightarrow>
     backends st' = backends st \<and> counter st' = counter st \<and>
     proxyActive st' = proxyActive st \<and> kills st' = kills st"

text \<open>What no event but a request changes: the gate aside, the counters and the cursor.\<close>

definition sameCounters :: "ProxyState \<Rightarrow> ProxyState \<Rightarrow> bool" where
  "sameCounters st st' \<longleftrightarrow>
     proxyActive st' = proxyActive st \<and>
     map ActiveRequests (backends st') = map ActiveRequests (backends st) \<and>
     counter st' = counter st"

section \<open>A concrete configuration\<close>

text \<open>
  Three backends on ports 9001 to 9003 with running processes, all healthy and idle, in
  a proxy that has just started serving with the default strategy.
\<close>

definition backendA :: Backend where
  "backendA = \<lparr>Name = ''A'', URL = ''localhost:9001'', Healthy = True, LastSeen = 0,
                Cmd = Some 11, ActiveRequests = 0\<rparr>"

definition backendB :: Backend where
  "backendB = \<lparr>Name = ''B'', URL = ''localhost:9002'', Healthy = True, LastSeen = 0,
                Cmd = Some 12, ActiveRequests = 0\<rparr>"

definition backendC :: Backend where
  "backendC = \<lparr>Name = ''C'', URL = ''localhost:9003'', Healthy = True, LastSeen = 0,
                Cmd = Some 13, ActiveRequests = 0\<rparr>"

definition scenario :: ProxyState where
  "scenario = \<lparr>backends = [backendA, backendB, backendC], counter = 0, proxyActive = True,
                strategy = StrategyRoundRobin, logs = [], kills = []\<rparr>"

text \<open>
  A start of the proxy with one configured backend, a strategy file that does not
  decode, the backend binary in place and a spawn that succeeds.
\<close>

definition startupA :: StartupEnv where
  "startupA = \<lparr>configFile = ConfigLoaded [\<lparr>cfgName = ''A'', cfgPort = 9001\<rparr>],
                strategyFile = FileDecodeError,
                parseURL = (\<lambda>cfg. Some ''localhost:9001''),
                startEnv = (\<lambda>i. \<lparr>binaryMissing = False, buildOk = True, spawned = Some 11\<rparr>)\<rparr>"

section \<open>Facts about the healthy set and the counters\<close>

lemma set_healthyIdx: "set (healthyIdx bs) = {i. i < length bs \<and> Healthy (bs ! i)}"
  by (auto simp: healthyIdx_def)

lemma healthyIdx_empty_iff: "healthyIdx bs = [] \<longleftrightarrow> (\<forall>b\<in>set bs. \<not> Healthy b)"
proof -
  have "healthyIdx bs = [] \<longleftrightarrow> set (healthyIdx bs) = {}" by simp
  also have "\<dots> \<longleftrightarrow> (\<forall>i<length bs. \<not> Healthy (bs ! i))"
    unfolding set_healthyIdx by auto
  also have "\<dots> \<longleftrightarrow> (\<forall>b\<in>set bs. \<not> Healthy b)"
    by (simp add: all_set_conv_all_nth)
  finally show ?thesis .
qed

lemma sorted_healthyIdx: "sorted_wrt (<) (healthyIdx bs)"
  unfolding healthyIdx_def by (rule sorted_wrt_filter) simp

lemma distinct_healthyIdx: "distinct (healthyIdx bs)"
  by (simp add: healthyIdx_def)

lemma length_addActive: "length (addActive i d bs) = length bs"
  by (simp add: addActive_def)

lemma Healthy_addActive: "j < length bs \<Longrightarrow> Healthy (addActive i d bs ! j) = Healthy (bs ! j)"
  by (cases "j = i") (simp_all add: addActive_def)

lemma healthyIdx_addActive: "healthyIdx (addActive i d bs) = healthyIdx bs"
  unfolding healthyIdx_def length_addActive
  by (rule filter_cong) (simp_all add: Healthy_addActive)

lemma addActive_nth_same:
  "i < length bs \<Longrightarrow>
   addActive i d bs ! i = (bs ! i)\<lparr>ActiveRequests := ActiveRequests (bs ! i) + d\<rparr>"
  by (simp add: addActive_def)

lemma addActive_nth_other: "j \<noteq> i \<Longrightarrow> addActive i d bs ! j = bs ! j"
  by (simp add: addActive_def)

lemma addActive_roundtrip: "addActive i (- 1) (addActive i 1 bs) = bs"
proof (cases "i < length bs")
  case True
  then show ?thesis by (simp add: addActive_def)
next
  case False
  then have "length bs \<le> i" by simp
  then show ?thesis by (simp add: addActive_def list_update_beyond)
qed

lemma map_update_same_image: "f y = f (xs ! i) \<Longrightarrow> map f (xs[i := y]) = map f xs"
proof (cases "i < length xs")
  case True
  assume "f y = f (xs ! i)"
  with True show ?thesis by (simp add: map_update list_update_same_conv)
next
  case False
  then have "length xs \<le> i" by simp
  then show ?thesis by (simp add: list_update_beyond)
qed

lemma leastConnScan_Some: "leastConnScan bs idxs (Some b) m \<noteq> None"
  by (induction idxs arbitrary: b m) simp_all

lemma leastConnScan_start: "idxs \<noteq> [] \<Longrightarrow> leastConnScan bs idxs None (- 1) \<noteq> None"
  by (cases idxs) (simp_all add: leastConnScan_Some)

lemma leastConnScan_mem:
  "leastConnScan bs idxs best m = Some r \<Longrightarrow> r \<in> set idxs \<or> best = Some r"
  by (induction idxs arbitrary: best m) (auto split: if_splits)

lemma getNextHealthyBackend_Picked:
  assumes "getNextHealthyBackend st = (Picked i, st1)"
  shows "i \<in> set (healthyIdx (backends st))"
proof (cases "strategy st = StrategyLeastConnections")
  case True
  with assms obtain r where "leastConnScan (backends st) (healthyIdx (backends st)) None (- 1) = Some r" "r = i"
    by (auto simp: getNextHealthyBackend_def Let_def split: if_splits option.splits)
  then show ?thesis using leastConnScan_mem by fastforce
next
  case False
  with assms show ?thesis
    by (auto simp: getNextHealthyBackend_def Let_def split: if_splits intro!: nth_mem)
qed

lemma getNextHealthyBackend_NoBackend_iff:
  "fst (getNextHealthyBackend st) = NoBackend \<longleftrightarrow> healthyIdx (backends st) = []"
proof (cases "healthyIdx (backends st) = []")
  case True
  then show ?thesis by (simp add: getNextHealthyBackend_def)
next
  case False
  then obtain r where "leastConnScan (backends st) (healthyIdx (backends st)) None (- 1) = Some r"
    using leastConnScan_start [of "healthyIdx (backends st)" "backends st"] by auto
  with False show ?thesis
    by (simp add: getNextHealthyBackend_def Let_def)
qed

lemma getNextHealthyBackend_none:
  "healthyIdx (backends st) = [] \<Longrightarrow> getNextHealthyBackend st = (NoBackend, st)"
  by (simp add: getNextHealthyBackend_def)

lemma release_backends: "backends (release b st) = addActive b (- 1) (backends st)"
  by (simp add: release_def Let_def)

lemma getNextHealthyBackend_Picked_backends:
  assumes "getNextHealthyBackend st = (Picked b, st1)"
  shows "backends st1 = addActive b 1 (backends st)"
  using assms
  by (auto simp: getNextHealthyBackend_def Let_def split: if_splits option.splits)

lemma handleRequest_Picked:
  assumes "proxyActive st" and "getNextHealthyBackend st = (Picked b, st1)"
  shows "fst (handleRequest up st) = forward up"
    and "backends (snd (handleRequest up st)) = addActive b (- 1) (backends st1)"
  using assms by (simp_all add: handleRequest_def Let_def release_backends)

lemma int64_succ_positive:
  fixes a :: "64 word"
  assumes "0 \<le>s a" and "a \<noteq> 2 ^ 63 - 1"
  shows "0 <s a + 1"
proof -
  have a0: "0 \<le> sint a" using assms(1) by (simp add: word_sle_eq)
  have "sint a < 2 ^ 63" using sint_lt [of a] by simp
  moreover have "sint a \<noteq> 2 ^ 63 - 1"
  proof
    assume "sint a = 2 ^ 63 - 1"
    then have "sint a = sint (2 ^ 63 - 1 :: 64 word)" by simp
    then have "a = 2 ^ 63 - 1" by (rule signed_word_eqI)
    with assms(2) show False by simp
  qed
  ultimately have a1: "sint a + 1 < 2 ^ 63" by simp
  have "sint (a + 1) = signed_take_bit 63 (sint a + 1)"
    by (simp add: sint_word_ariths)
  also have "\<dots> = sint a + 1"
    using a0 a1 by (simp add: signed_take_bit_int_eq_self)
  finally show ?thesis using a0 by (simp add: word_sless_alt)
qed

lemma handleRequest_paused:
  "\<not> proxyActive st \<Longrightarrow>
   handleRequest up st = (HttpError StatusServiceUnavailable ''Proxy is currently paused'', st)"
  by (simp add: handleRequest_def)



lemma sameCounters_refl: "sameCounters st st"
  by (simp add: sameCounters_def)

lemma sameCounters_trans: "sameCounters a b \<Longrightarrow> sameCounters b c \<Longrightarrow> sameCounters a c"
  by (simp add: sameCounters_def)

lemma startBackend_sameCounters:
  "startBackend env i st = ProcessExited st' \<or> startBackend env i st = Continues st' \<Longrightarrow>
   sameCounters st st'"
  by (auto simp: startBackend_def Let_def sameCounters_def setCmd_def map_update_same_image
      split: if_splits option.splits)

lemma startOrRestartLoop_sameCounters:
  "startOrRestartLoop env name idxs st = ProcessExited st' \<or>
   startOrRestartLoop env name idxs st = Continues (r, st') \<Longrightarrow> sameCounters st st'"
proof (induction idxs)
  case Nil
  then show ?case by (simp add: sameCounters_refl)
next
  case (Cons i rest)
  show ?case
  proof (cases "Name (backends st ! i) = name")
    case False
    with Cons show ?thesis by simp
  next
    case True
    define st1 where "st1 =
      (case Cmd (backends st ! i) of
         Some h \<Rightarrow> st\<lparr>logs := logs st @ [LogRestarting (Name (backends st ! i))],
                       kills := kills st @ [h]\<rparr>
       | None \<Rightarrow> st\<lparr>logs := logs st @ [LogStarting (Name (backends st ! i))]\<rparr>)"
    have a: "sameCounters st st1"
      by (simp add: st1_def sameCounters_def split: option.splits)
    from Cons.prems True
    have "startBackend env i st1 = ProcessExited st' \<or> startBackend env i st1 = Continues st'"
      by (auto simp: st1_def Let_def split: Outcome.splits)
    then have "sameCounters st1 st'" by (rule startBackend_sameCounters)
    with a show ?thesis by (rule sameCounters_trans)
  qed
qed

lemma handleStartOrRestartBackend_sameCounters:
  "handleStartOrRestartBackend env name st = ProcessExited st' \<or>
   handleStartOrRestartBackend env name st = Continues (r, st') \<Longrightarrow> sameCounters st st'"
  using startOrRestartLoop_sameCounters [of env name "[0..<length (backends st)]" st st' r]
  by (auto simp: handleStartOrRestartBackend_def sameCounters_refl split: if_splits)

lemma stopLoop_sameCounters:
  "stopLoop killOk name idxs st = (r, st') \<Longrightarrow> sameCounters st st'"
proof (induction idxs)
  case Nil
  then show ?case by (auto simp: sameCounters_refl)
next
  case (Cons i rest)
  then show ?case
    by (auto simp: Let_def sameCounters_def setHealthy_def map_update_same_image
        split: if_splits option.splits)
qed

lemma handleStopBackend_sameCounters:
  "handleStopBackend killOk name st = (r, st') \<Longrightarrow> sameCounters st st'"
  using stopLoop_sameCounters [of killOk name "[0..<length (backends st)]" st r st']
  by (auto simp: handleStopBackend_def sameCounters_refl split: if_splits)

lemma healthMonitorStep_sameCounters:
  "sameCounters st (healthMonitorStep connected now i st)"
  by (simp add: healthMonitorStep_def probeBackend_def sameCounters_def map_update_same_image)

lemma handleProxyStrategy_sameCounters:
  "handleProxyStrategy createOk req st = (r, st') \<Longrightarrow> sameCounters st st'"
  by (auto simp: handleProxyStrategy_def saveStrategy_def Let_def sameCounters_def
      split: StrategyRequest.splits if_splits)

lemma step_paused:
  assumes "\<not> proxyActive st" and "ev \<noteq> EvResume"
    and "step ev st = ProcessExited st' \<or> step ev st = Continues (r, st')"
  shows "sameCounters st st' \<and>
         (\<forall>up. ev = EvRequest up \<longrightarrow>
            r = Some (HttpError StatusServiceUnavailable ''Proxy is currently paused'') \<and> st' = st)"
proof (cases ev)
  case (EvRequest up)
  with assms show ?thesis by (auto simp: step_def handleRequest_paused sameCounters_refl)
next
  case EvPause
  with assms show ?thesis by (auto simp: step_def handleProxyPause_def sameCounters_def)
next
  case EvResume
  with assms show ?thesis by simp
next
  case (EvStrategy createOk req)
  with assms show ?thesis
    by (auto simp: step_def split: prod.splits dest: handleProxyStrategy_sameCounters)
next
  case (EvStart env name)
  with assms have "handleStartOrRestartBackend env name st = ProcessExited st' \<or>
      (\<exists>r'. handleStartOrRestartBackend env name st = Continues (r', st'))"
    by (auto simp: step_def split: Outcome.splits prod.splits)
  then have "sameCounters st st'"
    using handleStartOrRestartBackend_sameCounters by blast
  with EvStart show ?thesis by simp
next
  case (EvStop killOk name)
  with assms show ?thesis
    by (auto simp: step_def split: prod.splits dest: handleStopBackend_sameCounters)
next
  case (EvProbe connected now i)
  with assms show ?thesis
    by (auto simp: step_def healthMonitorStep_sameCounters sameCounters_refl)
qed

lemma run_paused:
  assumes "\<not> proxyActive st" and "EvResume \<notin> set evs"
  shows "sameCounters st (snd (run evs st)) \<and>
         length (fst (run evs st)) \<le> length evs \<and>
         (\<forall>k<length (fst (run evs st)). \<forall>up. evs ! k = EvRequest up \<longrightarrow>
            fst (run evs st) ! k =
              Some (HttpError StatusServiceUnavailable ''Proxy is currently paused''))"
  using assms
proof (induction evs arbitrary: st)
  case Nil
  then show ?case by (simp add: sameCounters_refl)
next
  case (Cons ev evs)
  then have ne: "ev \<noteq> EvResume" and rest: "EvResume \<notin> set evs" by auto
  show ?case
  proof (cases "step ev st")
    case (ProcessExited st1)
    with Cons.prems(1) ne have "sameCounters st st1" using step_paused by blast
    with ProcessExited show ?thesis by simp
  next
    case (Continues p)
    obtain r st1 where p: "p = (r, st1)" by (cases p)
    with Continues Cons.prems(1) ne
    have s: "sameCounters st st1"
      and q: "\<forall>up. ev = EvRequest up \<longrightarrow>
            r = Some (HttpError StatusServiceUnavailable ''Proxy is currently paused'')"
      using step_paused [of st ev st1 r] by auto
    from s Cons.prems(1) have "\<not> proxyActive st1" by (simp add: sameCounters_def)
    from Cons.IH [OF this rest]
    have ih1: "sameCounters st1 (snd (run evs st1))"
      and ih2: "length (fst (run evs st1)) \<le> length evs"
      and ih3: "\<forall>k<length (fst (run evs st1)). \<forall>up. evs ! k = EvRequest up \<longrightarrow>
            fst (run evs st1) ! k =
              Some (HttpError StatusServiceUnavailable ''Proxy is currently paused'')"
      by auto
    have r1: "fst (run (ev # evs) st) = r # fst (run evs st1)"
      and r2: "snd (run (ev # evs) st) = snd (run evs st1)"
      using Continues p by (simp_all split: prod.splits)
    have "sameCounters st (snd (run (ev # evs) st))"
      using s ih1 r2 sameCounters_trans by simp
    moreover have "length (fst (run (ev # evs) st)) \<le> length (ev # evs)"
      using ih2 r1 by simp
    moreover have "\<forall>k<length (fst (run (ev # evs) st)). \<forall>up. (ev # evs) ! k = EvRequest up \<longrightarrow>
            fst (run (ev # evs) st) ! k =
              Some (HttpError StatusServiceUnavailable ''Proxy is currently paused'')"
    proof (intro allI impI)
      fix k up
      assume k: "k < length (fst (run (ev # evs) st))" and e: "(ev # evs) ! k = EvRequest up"
      show "fst (run (ev # evs) st) ! k =
              Some (HttpError StatusServiceUnavailable ''Proxy is currently paused'')"
      proof (cases k)
        case 0
        with e q r1 show ?thesis by simp
      next
        case (Suc j)
        with k e r1 ih3 show ?thesis by simp
      qed
    qed
    ultimately show ?thesis by blast
  qed
qed

lemmas scenario_defs =
  scenario_def backendA_def backendB_def backendC_def
  StrategyRoundRobin_def StrategyLeastConnections_def

lemmas selection_defs =
  getNextHealthyBackend_def healthyIdx_def addActive_def Let_def upt_rec
  signed_modulo_int_def

lemma scenario_first_pick:
  "getNextHealthyBackend scenario =
     (Picked 1,
      scenario\<lparr>counter := 1,
               backends := [backendA, backendB\<lparr>ActiveRequests := 1\<rparr>, backendC],
               logs := [LogSelectedRR ''B'' 1]\<rparr>)"
  by (simp add: selection_defs scenario_defs)

lemma scenario_least_pick:
  "getNextHealthyBackend (scenario\<lparr>strategy := StrategyLeastConnections\<rparr>) =
     (Picked 0,
      scenario\<lparr>strategy := StrategyLeastConnections,
               backends := [backendA\<lparr>ActiveRequests := 1\<rparr>, backendB, backendC],
               logs := [LogSelectedLeastConn ''A'' 1]\<rparr>)"
  by (simp add: selection_defs scenario_defs)

section \<open>Every selected request releases its backend exactly once\<close>

text \<open>
  C1: when the gate is open and the selection picks the backend at position \<open>b\<close>, the
  handler answers with the outcome of forwarding (the relayed response, bad-gateway
  when the round trip failed, or no answer when relaying the status panics), and on
  every path the counter of \<open>b\<close> goes up by one at
  selection and down by one at the end: the backends are afterwards exactly what they
  were before the selection. A counter that was non-negative is non-negative again
  afterwards, and while the request is in flight it is positive unless it stood at the
  largest \<^verbatim>\<open>int64\<close>. The release by itself, in whatever state it runs (other requests
  may have come and gone in between), takes exactly one off the counter of \<open>b\<close> and
  leaves every other backend alone.
\<close>

theorem handleRequest_releases_once:
  assumes "proxyActive st" and "getNextHealthyBackend st = (Picked b, st1)"
  shows "fst (handleRequest up st) = forward up \<and>
         b < length (backends st) \<and>
         ActiveRequests (backends st1 ! b) = ActiveRequests (backends st ! b) + 1 \<and>
         ActiveRequests (backends (snd (handleRequest up st)) ! b) =
           ActiveRequests (backends st1 ! b) - 1 \<and>
         backends (snd (handleRequest up st)) = backends st \<and>
         (0 \<le>s ActiveRequests (backends st ! b) \<longrightarrow>
            0 \<le>s ActiveRequests (backends (snd (handleRequest up st)) ! b) \<and>
            (ActiveRequests (backends st ! b) \<noteq> 2 ^ 63 - 1 \<longrightarrow>
               0 <s ActiveRequests (backends st1 ! b))) \<and>
         (b < length (backends st2) \<longrightarrow>
            ActiveRequests (backends (release b st2) ! b) =
              ActiveRequests (backends st2 ! b) - 1 \<and>
            (\<forall>j. j \<noteq> b \<longrightarrow> backends (release b st2) ! j = backends st2 ! j))"
proof -
  have mem: "b \<in> set (healthyIdx (backends st))"
    using assms(2) by (rule getNextHealthyBackend_Picked)
  then have len: "b < length (backends st)" by (simp add: set_healthyIdx)
  have sel: "backends st1 = addActive b 1 (backends st)"
    using assms(2) by (rule getNextHealthyBackend_Picked_backends)
  have fin: "backends (snd (handleRequest up st)) = addActive b (- 1) (backends st1)"
    using assms by (rule handleRequest_Picked)
  have base: "backends (snd (handleRequest up st)) = backends st"
    by (simp only: fin sel addActive_roundtrip)
  have up1: "ActiveRequests (backends st1 ! b) = ActiveRequests (backends st ! b) + 1"
    using len by (simp add: sel addActive_nth_same)
  have down1: "ActiveRequests (backends (snd (handleRequest up st)) ! b) =
      ActiveRequests (backends st1 ! b) - 1"
    using len by (simp add: base up1)
  have pos: "0 <s ActiveRequests (backends st1 ! b)"
    if "0 \<le>s ActiveRequests (backends st ! b)" "ActiveRequests (backends st ! b) \<noteq> 2 ^ 63 - 1"
    unfolding up1 using that by (rule int64_succ_positive)
  have rel: "ActiveRequests (backends (release b st2) ! b) =
      ActiveRequests (backends st2 ! b) - 1"
    if "b < length (backends st2)"
    using that by (simp add: release_backends addActive_nth_same)
  have frame: "\<forall>j. j \<noteq> b \<longrightarrow> backends (release b st2) ! j = backends st2 ! j"
    by (simp add: release_backends addActive_nth_other)
  show ?thesis
    using assms handleRequest_Picked(1) len up1 down1 base pos rel frame by simp
qed

theorem handleRequest_releases_once_witness:
  "proxyActive scenario \<and>
   getNextHealthyBackend scenario =
     (Picked 1,
      scenario\<lparr>counter := 1,
               backends := [backendA, backendB\<lparr>ActiveRequests := 1\<rparr>, backendC],
               logs := [LogSelectedRR ''B'' 1]\<rparr>) \<and>
   0 \<le>s ActiveRequests (backends scenario ! 1) \<and>
   ActiveRequests (backends scenario ! 1) \<noteq> 2 ^ 63 - 1 \<and>
   fst (handleRequest (UpstreamFailed ''connection refused'') scenario) =
     HttpError StatusBadGateway ''connection refused'' \<and>
   fst (handleRequest (UpstreamReplied 200) scenario) = Relayed 200 \<and>
   backends (snd (handleRequest (UpstreamFailed ''connection refused'') scenario)) =
     backends scenario \<and>
   backends (snd (handleRequest (UpstreamReplied 200) scenario)) = backends scenario \<and>
   0 \<le>s ActiveRequests
     (backends (snd (handleRequest (UpstreamFailed ''connection refused'') scenario)) ! 1)"
proof -
  have act: "proxyActive scenario" by (simp add: scenario_def)
  have nonneg: "0 \<le>s ActiveRequests (backends scenario ! 1)"
    and notmax: "ActiveRequests (backends scenario ! 1) \<noteq> 2 ^ 63 - 1"
    by (simp_all add: scenario_defs)
  show ?thesis
    using act nonneg notmax scenario_first_pick
      handleRequest_releases_once [OF act scenario_first_pick,
        of "UpstreamFailed ''connection refused''"]
      handleRequest_releases_once [OF act scenario_first_pick, of "UpstreamReplied 200"]
    by (simp add: forward_def)
qed

section \<open>Selection returns healthy backends only\<close>

text \<open>
  C5: under either strategy a selected backend is one whose healthy flag is set;
  the selection returns no backend exactly when no backend is healthy, and then the
  request handler (gate open) answers service-unavailable and leaves the whole state,
  every backend included, as it was.
\<close>

theorem selection_only_healthy:
  "(getNextHealthyBackend st = (Picked i, st1) \<longrightarrow>
      i < length (backends st) \<and> Healthy (backends st ! i)) \<and>
   (fst (getNextHealthyBackend st) = NoBackend \<longleftrightarrow> (\<forall>b\<in>set (backends st). \<not> Healthy b)) \<and>
   (proxyActive st \<and> (\<forall>b\<in>set (backends st). \<not> Healthy b) \<longrightarrow>
      handleRequest up st =
        (HttpError StatusServiceUnavailable ''No healthy backend available'', st))"
proof (intro conjI impI)
  assume "getNextHealthyBackend st = (Picked i, st1)"
  then have "i \<in> set (healthyIdx (backends st))" by (rule getNextHealthyBackend_Picked)
  then show "i < length (backends st)" and "Healthy (backends st ! i)"
    by (simp_all add: set_healthyIdx)
next
  show "fst (getNextHealthyBackend st) = NoBackend \<longleftrightarrow> (\<forall>b\<in>set (backends st). \<not> Healthy b)"
    by (simp only: getNextHealthyBackend_NoBackend_iff healthyIdx_empty_iff)
next
  assume "proxyActive st \<and> (\<forall>b\<in>set (backends st). \<not> Healthy b)"
  then have "proxyActive st" and "healthyIdx (backends st) = []"
    by (simp_all add: healthyIdx_empty_iff)
  then show "handleRequest up st =
      (HttpError StatusServiceUnavailable ''No healthy backend available'', st)"
    by (simp add: handleRequest_def getNextHealthyBackend_none)
qed

theorem selection_only_healthy_witness:
  "getNextHealthyBackend scenario =
     (Picked 1,
      scenario\<lparr>counter := 1,
               backends := [backendA, backendB\<lparr>ActiveRequests := 1\<rparr>, backendC],
               logs := [LogSelectedRR ''B'' 1]\<rparr>) \<and>
   1 < length (backends scenario) \<and> Healthy (backends scenario ! 1) \<and>
   fst (getNextHealthyBackend (scenario\<lparr>strategy := StrategyLeastConnections\<rparr>)) = Picked 0 \<and>
   Healthy (backends (scenario\<lparr>strategy := StrategyLeastConnections\<rparr>) ! 0) \<and>
   proxyActive (scenario\<lparr>backends := [backendA\<lparr>Healthy := False\<rparr>]\<rparr>) \<and>
   filter Healthy (backends (scenario\<lparr>backends := [backendA\<lparr>Healthy := False\<rparr>]\<rparr>)) = [] \<and>
   fst (getNextHealthyBackend (scenario\<lparr>backends := [backendA\<lparr>Healthy := False\<rparr>]\<rparr>)) =
     NoBackend \<and>
   handleRequest (UpstreamReplied 200)
       (scenario\<lparr>backends := [backendA\<lparr>Healthy := False\<rparr>]\<rparr>) =
     (HttpError StatusServiceUnavailable ''No healthy backend available'',
      scenario\<lparr>backends := [backendA\<lparr>Healthy := False\<rparr>]\<rparr>)"
proof -
  let ?down = "scenario\<lparr>backends := [backendA\<lparr>Healthy := False\<rparr>]\<rparr>"
  let ?rr1 = "scenario\<lparr>counter := 1,
               backends := [backendA, backendB\<lparr>ActiveRequests := 1\<rparr>, backendC],
               logs := [LogSelectedRR ''B'' 1]\<rparr>"
  let ?lc = "scenario\<lparr>strategy := StrategyLeastConnections\<rparr>"
  let ?lc1 = "scenario\<lparr>strategy := StrategyLeastConnections,
               backends := [backendA\<lparr>ActiveRequests := 1\<rparr>, backendB, backendC],
               logs := [LogSelectedLeastConn ''A'' 1]\<rparr>"
  have a: "proxyActive ?down \<and> (\<forall>b\<in>set (backends ?down). \<not> Healthy b)"
    by (simp add: scenario_defs)
  show ?thesis
    using a scenario_first_pick scenario_least_pick
      selection_only_healthy [where st = scenario and i = 1 and ?st1.0 = ?rr1]
      selection_only_healthy [where st = ?lc and i = 0 and ?st1.0 = ?lc1]
      selection_only_healthy [where st = ?down and up = "UpstreamReplied 200"]
    by simp
qed

section \<open>A closed gate refuses every request\<close>

text \<open>
  C2: while the gate is closed the handler answers every request with the
  service-unavailable outcome of the pause check and returns the state as it was: no
  backend, no counter and not the cursor is changed. Over any sequence of
  events without a resume (requests, pauses, strategy changes, starts, stops and health
  probes), the gate stays closed, every request in it gets that answer, and the
  active-request counters and the round-robin cursor end as they began. Pausing closes
  the gate and resuming opens it.
\<close>

theorem paused_gate_refuses_every_request:
  assumes "\<not> proxyActive st" and "EvResume \<notin> set evs"
  shows "handleRequest up st =
           (HttpError StatusServiceUnavailable ''Proxy is currently paused'', st) \<and>
         \<not> proxyActive (snd (run evs st)) \<and>
         map ActiveRequests (backends (snd (run evs st))) = map ActiveRequests (backends st) \<and>
         counter (snd (run evs st)) = counter st \<and>
         (\<forall>k<length (fst (run evs st)). \<forall>u. evs ! k = EvRequest u \<longrightarrow>
            fst (run evs st) ! k =
              Some (HttpError StatusServiceUnavailable ''Proxy is currently paused'')) \<and>
         \<not> proxyActive (snd (handleProxyPause st0)) \<and>
         proxyActive (snd (handleProxyResume (snd (run evs st))))"
proof -
  have one: "handleRequest up st =
      (HttpError StatusServiceUnavailable ''Proxy is currently paused'', st)"
    using assms(1) by (rule handleRequest_paused)
  have many: "sameCounters st (snd (run evs st)) \<and>
         length (fst (run evs st)) \<le> length evs \<and>
         (\<forall>k<length (fst (run evs st)). \<forall>u. evs ! k = EvRequest u \<longrightarrow>
            fst (run evs st) ! k =
              Some (HttpError StatusServiceUnavailable ''Proxy is currently paused''))"
    using assms by (rule run_paused)
  have gate: "\<not> proxyActive (snd (handleProxyPause st0))"
    "proxyActive (snd (handleProxyResume (snd (run evs st))))"
    by (simp_all add: handleProxyPause_def handleProxyResume_def)
  from one many gate assms(1) show ?thesis
    by (simp add: sameCounters_def)
qed

lemmas handler_defs =
  handleRequest_def handleProxyPause_def handleProxyResume_def handleStopBackend_def
  healthMonitorStep_def probeBackend_def step_def setHealthy_def forward_def release_def

theorem paused_gate_refuses_every_request_witness:
  "\<not> proxyActive (snd (handleProxyPause scenario)) \<and>
   EvResume \<notin> set [EvRequest (UpstreamReplied 200), EvProbe False 7 0,
                    EvRequest (UpstreamFailed ''refused'')] \<and>
   fst (run [EvRequest (UpstreamReplied 200), EvProbe False 7 0,
             EvRequest (UpstreamFailed ''refused'')] (snd (handleProxyPause scenario))) ! 0 =
     Some (HttpError StatusServiceUnavailable ''Proxy is currently paused'') \<and>
   fst (run [EvRequest (UpstreamReplied 200), EvProbe False 7 0,
             EvRequest (UpstreamFailed ''refused'')] (snd (handleProxyPause scenario))) ! 2 =
     Some (HttpError StatusServiceUnavailable ''Proxy is currently paused'') \<and>
   map ActiveRequests
     (backends (snd (run [EvRequest (UpstreamReplied 200), EvProbe False 7 0,
             EvRequest (UpstreamFailed ''refused'')] (snd (handleProxyPause scenario))))) =
     [0, 0, 0] \<and>
   counter (snd (run [EvRequest (UpstreamReplied 200), EvProbe False 7 0,
             EvRequest (UpstreamFailed ''refused'')] (snd (handleProxyPause scenario)))) = 0"
proof -
  let ?st = "snd (handleProxyPause scenario)"
  let ?evs = "[EvRequest (UpstreamReplied 200), EvProbe False 7 0,
               EvRequest (UpstreamFailed ''refused'')]"
  have h1: "\<not> proxyActive ?st" by (simp add: handleProxyPause_def)
  have h2: "EvResume \<notin> set ?evs" by simp
  have len: "length (fst (run ?evs ?st)) = 3"
    by (simp add: handler_defs scenario_defs split: prod.splits)
  have start: "map ActiveRequests (backends ?st) = [0, 0, 0]" "counter ?st = 0"
    by (simp_all add: handleProxyPause_def scenario_defs)
  from paused_gate_refuses_every_request [OF h1 h2, of "UpstreamReplied 200" scenario]
  show ?thesis
    using h1 h2 len start by simp
qed

lemma leastConnScan_min:
  assumes "sorted_wrt (<) (b # idxs)"
    and "\<forall>j\<in>set (b # idxs). ActiveRequests (bs ! j) \<noteq> - 1"
  shows "\<exists>r. leastConnScan bs idxs (Some b) (ActiveRequests (bs ! b)) = Some r \<and>
           r \<in> set (b # idxs) \<and>
           (\<forall>j\<in>set (b # idxs). ActiveRequests (bs ! r) \<le>s ActiveRequests (bs ! j)) \<and>
           (\<forall>j\<in>set (b # idxs). j < r \<longrightarrow> ActiveRequests (bs ! r) <s ActiveRequests (bs ! j))"
  using assms
proof (induction idxs arbitrary: b)
  case Nil
  then show ?case by simp
next
  case (Cons x rest)
  have bx: "b < x" and brest: "\<forall>j\<in>set rest. b < j" and xrest: "\<forall>j\<in>set rest. x < j"
    and srest: "sorted_wrt (<) rest"
    using Cons.prems(1) by auto
  have nb: "ActiveRequests (bs ! b) \<noteq> - 1"
    and nrest: "\<forall>j\<in>set rest. ActiveRequests (bs ! j) \<noteq> - 1"
    and nx: "ActiveRequests (bs ! x) \<noteq> - 1"
    using Cons.prems(2) by auto
  show ?case
  proof (cases "ActiveRequests (bs ! x) <s ActiveRequests (bs ! b)")
    case True
    have "sorted_wrt (<) (x # rest)" using xrest srest by simp
    moreover have "\<forall>j\<in>set (x # rest). ActiveRequests (bs ! j) \<noteq> - 1"
      using nx nrest by simp
    ultimately obtain r where
      r1: "leastConnScan bs rest (Some x) (ActiveRequests (bs ! x)) = Some r"
      and r2: "r \<in> set (x # rest)"
      and r3: "\<forall>j\<in>set (x # rest). ActiveRequests (bs ! r) \<le>s ActiveRequests (bs ! j)"
      and r4: "\<forall>j\<in>set (x # rest). j < r \<longrightarrow> ActiveRequests (bs ! r) <s ActiveRequests (bs ! j)"
      using Cons.IH [of x] by blast
    have rb: "ActiveRequests (bs ! r) <s ActiveRequests (bs ! b)"
      using r3 True by (auto simp: word_sle_eq word_sless_alt)
    have "leastConnScan bs (x # rest) (Some b) (ActiveRequests (bs ! b)) = Some r"
      using True r1 by simp
    moreover have "r \<in> set (b # x # rest)" using r2 by simp
    moreover have "\<forall>j\<in>set (b # x # rest). ActiveRequests (bs ! r) \<le>s ActiveRequests (bs ! j)"
      using r3 rb by (auto simp: word_sle_eq word_sless_alt)
    moreover have "\<forall>j\<in>set (b # x # rest). j < r \<longrightarrow>
        ActiveRequests (bs ! r) <s ActiveRequests (bs ! j)"
      using r4 rb by auto
    ultimately show ?thesis by blast
  next
    case False
    have "sorted_wrt (<) (b # rest)" using brest srest by simp
    moreover have "\<forall>j\<in>set (b # rest). ActiveRequests (bs ! j) \<noteq> - 1"
      using nb nrest by simp
    ultimately obtain r where
      r1: "leastConnScan bs rest (Some b) (ActiveRequests (bs ! b)) = Some r"
      and r2: "r \<in> set (b # rest)"
      and r3: "\<forall>j\<in>set (b # rest). ActiveRequests (bs ! r) \<le>s ActiveRequests (bs ! j)"
      and r4: "\<forall>j\<in>set (b # rest). j < r \<longrightarrow> ActiveRequests (bs ! r) <s ActiveRequests (bs ! j)"
      using Cons.IH [of b] by blast
    have bx': "ActiveRequests (bs ! b) \<le>s ActiveRequests (bs ! x)"
      using False by (simp add: word_sle_eq word_sless_alt)
    have rb: "ActiveRequests (bs ! r) \<le>s ActiveRequests (bs ! b)"
      using r3 by simp
    have rx: "ActiveRequests (bs ! r) \<le>s ActiveRequests (bs ! x)"
      using rb bx' by (simp add: word_sle_eq)
    have "leastConnScan bs (x # rest) (Some b) (ActiveRequests (bs ! b)) = Some r"
      using False nb r1 by simp
    moreover have "r \<in> set (b # x # rest)" using r2 by auto
    moreover have "\<forall>j\<in>set (b # x # rest). ActiveRequests (bs ! r) \<le>s ActiveRequests (bs ! j)"
      using r3 rx by simp
    moreover have "\<forall>j\<in>set (b # x # rest). j < r \<longrightarrow>
        ActiveRequests (bs ! r) <s ActiveRequests (bs ! j)"
    proof (intro ballI impI)
      fix j assume j: "j \<in> set (b # x # rest)" and jr: "j < r"
      show "ActiveRequests (bs ! r) <s ActiveRequests (bs ! j)"
      proof (cases "j = x")
        case False
        with j have "j \<in> set (b # rest)" by simp
        with jr r4 show ?thesis by blast
      next
        case True
        with jr bx have "b < r" by simp
        with r4 have "ActiveRequests (bs ! r) <s ActiveRequests (bs ! b)" by simp
        with bx' True show ?thesis by (simp add: word_sle_eq word_sless_alt)
      qed
    qed
    ultimately show ?thesis by blast
  qed
qed

lemma int64_nonneg_not_sentinel: "0 \<le>s (a :: 64 word) \<Longrightarrow> a \<noteq> - 1"
  by (auto simp: word_sle_eq)

section \<open>Least connections picks the first least-loaded healthy backend\<close>

text \<open>
  C3: with the least-connections strategy, at least one healthy backend, and the
  active-request counters of the healthy backends non-negative (as the data model has
  them; the scan keeps \<^verbatim>\<open>-1\<close> for "no minimum yet"), the selection returns a healthy
  backend whose counter is, in the signed order of \<^verbatim>\<open>int64\<close>, at most that of every
  healthy backend and strictly below that of every healthy backend before it in
  configuration order. The same call, inside the one critical section, adds one to the
  counter of that backend and changes no other backend.
\<close>

theorem least_connections_picks_first_minimum:
  assumes "strategy st = StrategyLeastConnections"
    and "\<exists>b\<in>set (backends st). Healthy b"
    and "\<forall>b\<in>set (backends st). Healthy b \<longrightarrow> 0 \<le>s ActiveRequests b"
  shows "\<exists>i<length (backends st).
           Healthy (backends st ! i) \<and>
           (\<forall>j<length (backends st). Healthy (backends st ! j) \<longrightarrow>
              ActiveRequests (backends st ! i) \<le>s ActiveRequests (backends st ! j)) \<and>
           (\<forall>j<i. Healthy (backends st ! j) \<longrightarrow>
              ActiveRequests (backends st ! i) <s ActiveRequests (backends st ! j)) \<and>
           getNextHealthyBackend st =
             (Picked i,
              st\<lparr>backends := (backends st)
                     [i := (backends st ! i)
                        \<lparr>ActiveRequests := ActiveRequests (backends st ! i) + 1\<rparr>],
                 logs := logs st @
                   [LogSelectedLeastConn (Name (backends st ! i))
                      (ActiveRequests (backends st ! i) + 1)]\<rparr>)"
proof -
  let ?bs = "backends st"
  let ?hs = "healthyIdx ?bs"
  have "?hs \<noteq> []" using assms(2) by (simp add: healthyIdx_empty_iff)
  then obtain b rest where hs: "?hs = b # rest" by (cases ?hs) auto
  have sorted: "sorted_wrt (<) (b # rest)"
    using sorted_healthyIdx [of ?bs] by (simp only: hs)
  have inset: "\<And>j. j \<in> set (b # rest) \<longleftrightarrow> j < length ?bs \<and> Healthy (?bs ! j)"
    using set_healthyIdx [of ?bs] by (simp only: hs) auto
  have nonneg: "\<forall>j\<in>set (b # rest). 0 \<le>s ActiveRequests (?bs ! j)"
    using assms(3) inset by (metis nth_mem)
  then have "\<forall>j\<in>set (b # rest). ActiveRequests (?bs ! j) \<noteq> - 1"
    using int64_nonneg_not_sentinel by blast
  with sorted obtain r where
    r1: "leastConnScan ?bs rest (Some b) (ActiveRequests (?bs ! b)) = Some r"
    and r2: "r \<in> set (b # rest)"
    and r3: "\<forall>j\<in>set (b # rest). ActiveRequests (?bs ! r) \<le>s ActiveRequests (?bs ! j)"
    and r4: "\<forall>j\<in>set (b # rest). j < r \<longrightarrow> ActiveRequests (?bs ! r) <s ActiveRequests (?bs ! j)"
    using leastConnScan_min [of b rest ?bs] by blast
  have scan: "leastConnScan ?bs ?hs None (- 1) = Some r"
    using r1 by (simp add: hs)
  have len: "r < length ?bs" and healthy: "Healthy (?bs ! r)"
    using r2 inset by auto
  have sel: "getNextHealthyBackend st =
      (Picked r,
       st\<lparr>backends := ?bs[r := (?bs ! r)\<lparr>ActiveRequests := ActiveRequests (?bs ! r) + 1\<rparr>],
          logs := logs st @
            [LogSelectedLeastConn (Name (?bs ! r)) (ActiveRequests (?bs ! r) + 1)]\<rparr>)"
    using assms(1) scan len \<open>?hs \<noteq> []\<close>
    by (simp add: getNextHealthyBackend_def Let_def addActive_def)
  have least: "\<forall>j<length ?bs. Healthy (?bs ! j) \<longrightarrow>
      ActiveRequests (?bs ! r) \<le>s ActiveRequests (?bs ! j)"
    using r3 inset by blast
  have first: "\<forall>j<r. Healthy (?bs ! j) \<longrightarrow>
      ActiveRequests (?bs ! r) <s ActiveRequests (?bs ! j)"
  proof (intro allI impI)
    fix j assume "j < r" and "Healthy (?bs ! j)"
    with len have "j \<in> set (b # rest)" using inset by simp
    with r4 \<open>j < r\<close> show "ActiveRequests (?bs ! r) <s ActiveRequests (?bs ! j)" by blast
  qed
  from len healthy least first sel show ?thesis by blast
qed

theorem least_connections_picks_first_minimum_witness:
  "strategy (scenario\<lparr>strategy := StrategyLeastConnections,
       backends := [backendA\<lparr>ActiveRequests := 2\<rparr>, backendB\<lparr>ActiveRequests := 1\<rparr>,
                    backendC\<lparr>ActiveRequests := 1\<rparr>]\<rparr>) = StrategyLeastConnections \<and>
   list_all (\<lambda>b. Healthy b \<and> 0 \<le>s ActiveRequests b)
     (backends (scenario\<lparr>strategy := StrategyLeastConnections,
       backends := [backendA\<lparr>ActiveRequests := 2\<rparr>, backendB\<lparr>ActiveRequests := 1\<rparr>,
                    backendC\<lparr>ActiveRequests := 1\<rparr>]\<rparr>)) \<and>
   getNextHealthyBackend (scenario\<lparr>strategy := StrategyLeastConnections,
       backends := [backendA\<lparr>ActiveRequests := 2\<rparr>, backendB\<lparr>ActiveRequests := 1\<rparr>,
                    backendC\<lparr>ActiveRequests := 1\<rparr>]\<rparr>) =
     (Picked 1,
      scenario\<lparr>strategy := StrategyLeastConnections,
        backends := [backendA\<lparr>ActiveRequests := 2\<rparr>, backendB\<lparr>ActiveRequests := 2\<rparr>,
                     backendC\<lparr>ActiveRequests := 1\<rparr>],
        logs := [LogSelectedLeastConn ''B'' 2]\<rparr>) \<and>
   ActiveRequests (backendB\<lparr>ActiveRequests := 1\<rparr>) <s ActiveRequests (backendA\<lparr>ActiveRequests := 2\<rparr>) \<and>
   ActiveRequests (backendB\<lparr>ActiveRequests := 1\<rparr>) \<le>s ActiveRequests (backendC\<lparr>ActiveRequests := 1\<rparr>)"
proof -
  let ?st = "scenario\<lparr>strategy := StrategyLeastConnections,
       backends := [backendA\<lparr>ActiveRequests := 2\<rparr>, backendB\<lparr>ActiveRequests := 1\<rparr>,
                    backendC\<lparr>ActiveRequests := 1\<rparr>]\<rparr>"
  have h1: "strategy ?st = StrategyLeastConnections" by simp
  have h2: "\<exists>b\<in>set (backends ?st). Healthy b" by (simp add: scenario_defs)
  have h3: "\<forall>b\<in>set (backends ?st). Healthy b \<longrightarrow> 0 \<le>s ActiveRequests b"
    by (simp add: scenario_defs word_sle_eq)
  have all: "list_all (\<lambda>b. Healthy b \<and> 0 \<le>s ActiveRequests b) (backends ?st)"
    by (simp add: scenario_defs word_sle_eq)
  from least_connections_picks_first_minimum [OF h1 h2 h3]
  obtain i where i: "i < length (backends ?st)"
    and least: "\<forall>j<length (backends ?st). Healthy (backends ?st ! j) \<longrightarrow>
              ActiveRequests (backends ?st ! i) \<le>s ActiveRequests (backends ?st ! j)"
    and first: "\<forall>j<i. Healthy (backends ?st ! j) \<longrightarrow>
              ActiveRequests (backends ?st ! i) <s ActiveRequests (backends ?st ! j)"
    and sel: "fst (getNextHealthyBackend ?st) = Picked i"
    by auto
  have pick: "getNextHealthyBackend ?st =
     (Picked 1,
      scenario\<lparr>strategy := StrategyLeastConnections,
        backends := [backendA\<lparr>ActiveRequests := 2\<rparr>, backendB\<lparr>ActiveRequests := 2\<rparr>,
                     backendC\<lparr>ActiveRequests := 1\<rparr>],
        logs := [LogSelectedLeastConn ''B'' 2]\<rparr>)"
    by (simp add: selection_defs scenario_defs word_sless_alt)
  with sel have i1: "i = 1" by simp
  have "Healthy (backends ?st ! 0)" "Healthy (backends ?st ! 2)"
    by (simp_all add: scenario_defs)
  with least first i1
  have "ActiveRequests (backends ?st ! 1) <s ActiveRequests (backends ?st ! 0)"
    and "ActiveRequests (backends ?st ! 1) \<le>s ActiveRequests (backends ?st ! 2)"
    by simp_all
  with h1 all pick show ?thesis by simp
qed

lemma sint_below_half:
  fixes c :: "64 word"
  assumes "unat c < 2 ^ 63"
  shows "sint c = int (unat c)"
proof -
  have "int (unat c) < int (2 ^ 63)" using assms by (simp only: of_nat_less_iff)
  then have lt: "int (unat c) < 2 ^ 63" by (simp only: of_nat_power of_nat_numeral)
  have "(0 :: int) \<le> int (unat c)" by (rule of_nat_0_le_iff)
  moreover have "- (2 ^ 63) \<le> (0 :: int)" by simp
  ultimately have ge: "- (2 ^ 63) \<le> int (unat c)" by (rule order_trans [rotated])
  have "sint c = signed_take_bit (LENGTH(64) - Suc 0) (uint c)"
    by (rule sint_uint)
  also have "\<dots> = signed_take_bit 63 (int (unat c))"
    by (simp only: uint_nat) simp
  also have "\<dots> = int (unat c)"
    using ge lt by (rule signed_take_bit_int_eq_self)
  finally show ?thesis .
qed

lemma unat_succ_below:
  fixes c :: "64 word"
  assumes "unat c + 1 < 2 ^ 63"
  shows "unat (c + 1) = unat c + 1"
proof -
  have "unat c + unat (1 :: 64 word) < 2 ^ 64" using assms by simp
  then have "unat c + unat (1 :: 64 word) < 2 ^ LENGTH(64)" by simp
  then have "unat (c + 1) = unat c + unat (1 :: 64 word)" by (rule unat_add_lem [THEN iffD1])
  then show ?thesis by simp
qed

lemma smod_nonneg: "0 \<le> k \<Longrightarrow> 0 < l \<Longrightarrow> k smod l = k mod (l :: int)"
  by (simp add: signed_modulo_int_def sgn_if)

lemma rr_index:
  fixes c :: "64 word"
  assumes "unat c + 1 < 2 ^ 63" and "0 < n"
  shows "sint (c + 1) smod int n = int ((unat c + 1) mod n)"
proof -
  have u: "unat (c + 1) = unat c + 1" using assms(1) by (rule unat_succ_below)
  have "unat (c + 1) < 2 ^ 63" unfolding u by (rule assms(1))
  then have "sint (c + 1) = int (unat (c + 1))" by (rule sint_below_half)
  then have s: "sint (c + 1) = int (unat c + 1)" by (simp only: u)
  have "int (unat c + 1) smod int n = int (unat c + 1) mod int n"
  proof (rule smod_nonneg)
    show "0 \<le> int (unat c + 1)" by (rule of_nat_0_le_iff)
    show "0 < int n" using assms(2) by (simp only: of_nat_0_less_iff)
  qed
  also have "\<dots> = int ((unat c + 1) mod n)" by (simp only: of_nat_mod)
  finally show ?thesis by (simp only: s)
qed

lemma getNextHealthyBackend_round_robin:
  assumes "strategy st \<noteq> StrategyLeastConnections"
    and "healthyIdx (backends st) \<noteq> []"
    and "unat (counter st) + 1 < 2 ^ 63"
  shows "getNextHealthyBackend st =
     (let hs = healthyIdx (backends st);
          b = hs ! ((unat (counter st) + 1) mod length hs);
          bs' = addActive b 1 (backends st)
      in (Picked b,
          st\<lparr>counter := counter st + 1, backends := bs',
             logs := logs st @ [LogSelectedRR (Name (bs' ! b)) (ActiveRequests (bs' ! b))]\<rparr>))"
proof -
  let ?hs = "healthyIdx (backends st)"
  let ?k = "(unat (counter st) + 1) mod length ?hs"
  have n: "0 < length ?hs" using assms(2) by simp
  have idx: "sint (counter st + 1) smod int (length ?hs) = int ?k"
    using assms(3) n by (rule rr_index)
  have "?k < length ?hs" using n by (rule mod_less_divisor)
  then have inr: "\<not> (int ?k < 0 \<or> int (length ?hs) \<le> int ?k)" by simp
  have len0: "length ?hs \<noteq> 0" using n by simp
  show ?thesis
    unfolding getNextHealthyBackend_def Let_def idx
    by (simp only: if_not_P [OF inr] if_not_P [OF len0] if_not_P [OF assms(1)] nat_int) simp
qed

lemma residue_iff:
  fixes x K r :: nat
  assumes "r < K"
  shows "(x + K - r) mod K = 0 \<longleftrightarrow> x mod K = r"
proof -
  have le: "r \<le> x + K" using assms by simp
  have "(x + K - r) mod K = 0 \<longleftrightarrow> K dvd (x + K) - r"
    by (simp only: mod_eq_0_iff_dvd)
  also have "\<dots> \<longleftrightarrow> (x + K) mod K = r mod K"
    using le by (simp only: mod_eq_dvd_iff_nat)
  also have "\<dots> \<longleftrightarrow> x mod K = r"
    using assms by simp
  finally show ?thesis .
qed

lemma count_residue:
  fixes c K r :: nat
  assumes "r < K"
  shows "length (filter (\<lambda>k. (c + k) mod K = r) [1..<Suc N]) =
         (c + N + K - r) div K - (c + K - r) div K"
proof (induction N)
  case 0
  show ?case by simp
next
  case (Suc N)
  let ?m = "c + N + K - r"
  have suc: "c + Suc N + K - r = Suc ?m" using assms by simp
  have mono: "(c + K - r) div K \<le> ?m div K"
    by (rule div_le_mono) simp
  have hit: "Suc ?m mod K = 0 \<longleftrightarrow> (c + Suc N) mod K = r"
    using residue_iff [OF assms, of "c + Suc N"] by (simp only: suc)
  have "length (filter (\<lambda>k. (c + k) mod K = r) [1..<Suc (Suc N)]) =
      length (filter (\<lambda>k. (c + k) mod K = r) [1..<Suc N]) +
      (if (c + Suc N) mod K = r then 1 else 0)"
    by simp
  also have "\<dots> = (?m div K - (c + K - r) div K) + (if Suc ?m mod K = 0 then 1 else 0)"
    by (simp only: Suc.IH hit)
  also have "\<dots> = Suc ?m div K - (c + K - r) div K"
    using mono by (simp add: div_Suc)
  finally show ?case by (simp only: suc)
qed

lemma window_bounds:
  fixes A N K :: nat
  assumes "0 < K"
  shows "N div K \<le> (A + N) div K - A div K"
    and "(A + N) div K - A div K \<le> (N + K - 1) div K"
proof -
  have "(A + N) div K = A div K + N div K + (A mod K + N mod K) div K"
    by (rule div_add1_eq)
  then have d: "(A + N) div K - A div K = N div K + (A mod K + N mod K) div K"
    by linarith
  show "N div K \<le> (A + N) div K - A div K" unfolding d by (rule le_add1)
  have "A mod K < K" using assms by (rule mod_less_divisor)
  then have "A mod K + N mod K \<le> N mod K + (K - 1)" by linarith
  then have le: "(A mod K + N mod K) div K \<le> (N mod K + (K - 1)) div K"
    by (rule div_le_mono)
  have k1: "(K - 1) div K = 0" "(K - 1) mod K = K - 1" using assms by simp_all
  have "(N + (K - 1)) div K = N div K + (K - 1) div K + (N mod K + (K - 1) mod K) div K"
    by (rule div_add1_eq)
  then have e: "(N + (K - 1)) div K = N div K + (N mod K + (K - 1)) div K"
    unfolding k1 by linarith
  have f: "N + K - 1 = N + (K - 1)" using assms by linarith
  show "(A + N) div K - A div K \<le> (N + K - 1) div K"
    unfolding d f e using le by (rule add_left_mono)
qed

lemma count_list_picked:
  assumes "distinct hs" and "r < length hs"
  shows "count_list (map (\<lambda>k. Picked (hs ! ((c + k) mod length hs))) ks) (Picked (hs ! r)) =
         length (filter (\<lambda>k. (c + k) mod length hs = r) ks)"
proof (induction ks)
  case Nil
  show ?case by simp
next
  case (Cons k ks)
  have "0 < length hs" using assms(2) by linarith
  then have "(c + k) mod length hs < length hs" by (rule mod_less_divisor)
  then have "hs ! ((c + k) mod length hs) = hs ! r \<longleftrightarrow> (c + k) mod length hs = r"
    using assms by (simp add: nth_eq_iff_index_eq)
  with Cons show ?case by simp
qed

lemma consecutiveSelections_round_robin:
  assumes "strategy st \<noteq> StrategyLeastConnections"
    and "healthyIdx (backends st) \<noteq> []"
    and "unat (counter st) + N < 2 ^ 63"
  shows "fst (consecutiveSelections N st) =
         map (\<lambda>k. Picked (healthyIdx (backends st) !
                      ((unat (counter st) + k) mod length (healthyIdx (backends st)))))
           [1..<Suc N]"
  using assms
proof (induction N arbitrary: st)
  case 0
  show ?case by simp
next
  case (Suc N)
  let ?hs = "healthyIdx (backends st)"
  let ?c = "unat (counter st)"
  let ?b = "?hs ! ((?c + 1) mod length ?hs)"
  let ?bs' = "addActive ?b 1 (backends st)"
  let ?st1 = "st\<lparr>counter := counter st + 1, backends := ?bs',
             logs := logs st @ [LogSelectedRR (Name (?bs' ! ?b)) (ActiveRequests (?bs' ! ?b))]\<rparr>"
  have small: "?c + 1 < 2 ^ 63" using Suc.prems(3) by simp
  have sel: "getNextHealthyBackend st = (Picked ?b, ?st1)"
    using getNextHealthyBackend_round_robin [OF Suc.prems(1,2) small] by (simp only: Let_def)
  have c1: "unat (counter ?st1) = ?c + 1" using small by (simp add: unat_succ_below)
  have hs1: "healthyIdx (backends ?st1) = ?hs" by (simp add: healthyIdx_addActive)
  have p1: "strategy ?st1 \<noteq> StrategyLeastConnections" using Suc.prems(1) by simp
  have p2: "healthyIdx (backends ?st1) \<noteq> []" unfolding hs1 by (rule Suc.prems(2))
  have p3: "unat (counter ?st1) + N < 2 ^ 63" using Suc.prems(3) unfolding c1 by linarith
  have "fst (consecutiveSelections N ?st1) =
      map (\<lambda>k. Picked (healthyIdx (backends ?st1) !
                      ((unat (counter ?st1) + k) mod length (healthyIdx (backends ?st1)))))
        [1..<Suc N]"
    using p1 p2 p3 by (rule Suc.IH)
  then have ih: "fst (consecutiveSelections N ?st1) =
      map (\<lambda>k. Picked (?hs ! ((?c + 1 + k) mod length ?hs))) [1..<Suc N]"
    unfolding hs1 c1 .
  have "fst (consecutiveSelections (Suc N) st) = Picked ?b # fst (consecutiveSelections N ?st1)"
    by (simp add: sel split: prod.splits)
  also have "\<dots> = Picked ?b #
      map ((\<lambda>k. Picked (?hs ! ((?c + k) mod length ?hs))) \<circ> Suc) [1..<Suc N]"
    by (simp only: ih) (simp add: comp_def del: upt_Suc)
  also have "\<dots> = Picked ?b #
      map (\<lambda>k. Picked (?hs ! ((?c + k) mod length ?hs))) [Suc 1..<Suc (Suc N)]"
    by (simp only: map_map [symmetric] map_Suc_upt)
  also have "\<dots> = map (\<lambda>k. Picked (?hs ! ((?c + k) mod length ?hs))) (1 # [Suc 1..<Suc (Suc N)])"
    by (simp only: list.map)
  also have "1 # [Suc 1..<Suc (Suc N)] = [1..<Suc (Suc N)]"
    by (rule upt_conv_Cons [symmetric]) simp
  finally show ?case .
qed

lemma healthyIdx_two: "healthyIdx [backendA, backendB] = [0, 1]"
  by (simp add: healthyIdx_def backendA_def backendB_def upt_rec)

lemma healthyIdx_three: "healthyIdx [backendA, backendB, backendC] = [0, 1, 2]"
  by (simp add: healthyIdx_def backendA_def backendB_def backendC_def upt_rec)


lemma rr_at_sign_bit:
  "getNextHealthyBackend (scenario\<lparr>counter := 9223372036854775807\<rparr>) =
     (IndexOutOfRange (- 2), scenario\<lparr>counter := 9223372036854775808\<rparr>)"
  by (simp add: getNextHealthyBackend_def Let_def healthyIdx_three scenario_def
      StrategyRoundRobin_def StrategyLeastConnections_def signed_modulo_int_def)

lemma rr_before_sign_bit:
  "getNextHealthyBackend (scenario\<lparr>counter := 9223372036854775806\<rparr>) =
     (Picked 1,
      scenario\<lparr>counter := 9223372036854775807,
               backends := [backendA, backendB\<lparr>ActiveRequests := 1\<rparr>, backendC],
               logs := [LogSelectedRR ''B'' 1]\<rparr>)"
  by (simp add: selection_defs scenario_defs)

section \<open>Round-robin fairness\<close>

text \<open>
  Where the incremented cursor, converted to \<^verbatim>\<open>int\<close>, is not negative, the index is the
  cursor modulo the number of healthy backends, and \<open>N\<close> consecutive selections against
  the \<open>K\<close> healthy backends pick each of them at least \<open>N div K\<close> and at most
  \<open>(N + K - 1) div K\<close> times.
\<close>

lemma round_robin_fair_below_sign_bit:
  assumes "strategy st \<noteq> StrategyLeastConnections"
    and "h < length (backends st)" and "Healthy (backends st ! h)"
    and "unat (counter st) + N < 2 ^ 63"
  shows "N div length (healthyIdx (backends st)) \<le>
           count_list (fst (consecutiveSelections N st)) (Picked h) \<and>
         count_list (fst (consecutiveSelections N st)) (Picked h) \<le>
           (N + length (healthyIdx (backends st)) - 1) div length (healthyIdx (backends st))"
proof -
  let ?hs = "healthyIdx (backends st)"
  let ?K = "length ?hs"
  let ?c = "unat (counter st)"
  have "h \<in> set ?hs" using assms(2,3) by (simp add: set_healthyIdx)
  then obtain r where r: "r < ?K" and hr: "?hs ! r = h"
    by (auto simp: in_set_conv_nth)
  have ne: "?hs \<noteq> []" and K: "0 < ?K" using r by auto
  have "count_list (fst (consecutiveSelections N st)) (Picked h) =
      count_list (map (\<lambda>k. Picked (?hs ! ((?c + k) mod ?K))) [1..<Suc N]) (Picked (?hs ! r))"
    using consecutiveSelections_round_robin [OF assms(1) ne assms(4)] by (simp only: hr)
  also have "\<dots> = length (filter (\<lambda>k. (?c + k) mod ?K = r) [1..<Suc N])"
    using distinct_healthyIdx r by (rule count_list_picked)
  also have "\<dots> = (?c + N + ?K - r) div ?K - (?c + ?K - r) div ?K"
    using r by (rule count_residue)
  also have "?c + N + ?K - r = (?c + ?K - r) + N" using r by linarith
  finally have cnt: "count_list (fst (consecutiveSelections N st)) (Picked h) =
      ((?c + ?K - r) + N) div ?K - (?c + ?K - r) div ?K" .
  show ?thesis
    unfolding cnt using window_bounds [OF K, where A = "?c + ?K - r" and N = N] by (rule conjI)
qed

lemma round_robin_ten_requests_two_backends:
  "strategy (scenario\<lparr>backends := [backendA, backendB]\<rparr>) \<noteq> StrategyLeastConnections \<and>
   1 < length (backends (scenario\<lparr>backends := [backendA, backendB]\<rparr>)) \<and>
   Healthy (backends (scenario\<lparr>backends := [backendA, backendB]\<rparr>) ! 0) \<and>
   Healthy (backends (scenario\<lparr>backends := [backendA, backendB]\<rparr>) ! 1) \<and>
   unat (counter (scenario\<lparr>backends := [backendA, backendB]\<rparr>)) + 10 < 2 ^ 63 \<and>
   count_list (fst (consecutiveSelections 10 (scenario\<lparr>backends := [backendA, backendB]\<rparr>)))
     (Picked 0) = 5 \<and>
   count_list (fst (consecutiveSelections 10 (scenario\<lparr>backends := [backendA, backendB]\<rparr>)))
     (Picked 1) = 5"
proof -
  let ?st = "scenario\<lparr>backends := [backendA, backendB]\<rparr>"
  have h1: "strategy ?st \<noteq> StrategyLeastConnections" by (simp add: scenario_defs)
  have h2: "0 < length (backends ?st)" "1 < length (backends ?st)" by simp_all
  have h3: "Healthy (backends ?st ! 0)" "Healthy (backends ?st ! 1)"
    by (simp_all add: scenario_defs)
  have h4: "unat (counter ?st) + 10 < 2 ^ 63" by (simp add: scenario_def)
  have K: "length (healthyIdx (backends ?st)) = 2" by (simp add: healthyIdx_two)
  have "count_list (fst (consecutiveSelections 10 ?st)) (Picked 0) = 5"
    using round_robin_fair_below_sign_bit [OF h1 h2(1) h3(1) h4] unfolding K by simp
  moreover have "count_list (fst (consecutiveSelections 10 ?st)) (Picked 1) = 5"
    using round_robin_fair_below_sign_bit [OF h1 h2(2) h3(2) h4] unfolding K by simp
  ultimately show ?thesis using h1 h2 h3 h4 by simp
qed

text \<open>
  C4: every \<open>N\<close> consecutive round-robin selections against a fixed healthy set of
  size \<open>K\<close> should pick each member at least \<open>N div K\<close> and at most \<open>(N + K - 1) div K\<close>
  times. The code does not at the cursor \<open>2^63 - 2\<close> with three healthy backends and
  \<open>N = 3\<close>: the first selection picks the second backend, the next two compute the
  indices \<open>-2\<close> and \<open>-1\<close> and panic, so the first backend is picked no time, where
  3 div 3 = 1 pick is due. It is the conversion of the cursor to \<^verbatim>\<open>int\<close> before the
  remainder is taken that misses the case, the same that C9 meets.
\<close>

theorem round_robin_unfair_across_sign_bit:
  "fst (consecutiveSelections 3 (scenario\<lparr>counter := 9223372036854775806\<rparr>)) =
     [Picked 1, IndexOutOfRange (- 2), IndexOutOfRange (- 1)] \<and>
   length (healthyIdx (backends (scenario\<lparr>counter := 9223372036854775806\<rparr>))) = 3 \<and>
   \<not> 3 div length (healthyIdx (backends (scenario\<lparr>counter := 9223372036854775806\<rparr>))) \<le>
       count_list (fst (consecutiveSelections 3 (scenario\<lparr>counter := 9223372036854775806\<rparr>)))
         (Picked 0)"
proof -
  let ?st1 = "scenario\<lparr>counter := 9223372036854775807,
               backends := [backendA, backendB\<lparr>ActiveRequests := 1\<rparr>, backendC],
               logs := [LogSelectedRR ''B'' 1]\<rparr>"
  have hs: "healthyIdx [backendA, backendB\<lparr>ActiveRequests := 1\<rparr>, backendC] = [0, 1, 2]"
    by (simp add: healthyIdx_def backendA_def backendB_def backendC_def upt_rec)
  have s2: "getNextHealthyBackend ?st1 =
      (IndexOutOfRange (- 2), ?st1\<lparr>counter := 9223372036854775808\<rparr>)"
    by (simp add: getNextHealthyBackend_def Let_def hs scenario_def
        StrategyRoundRobin_def StrategyLeastConnections_def signed_modulo_int_def)
  have s3: "getNextHealthyBackend (?st1\<lparr>counter := 9223372036854775808\<rparr>) =
      (IndexOutOfRange (- 1), ?st1\<lparr>counter := 9223372036854775809\<rparr>)"
    by (simp add: getNextHealthyBackend_def Let_def hs scenario_def
        StrategyRoundRobin_def StrategyLeastConnections_def signed_modulo_int_def)
  have run: "fst (consecutiveSelections 3 (scenario\<lparr>counter := 9223372036854775806\<rparr>)) =
     [Picked 1, IndexOutOfRange (- 2), IndexOutOfRange (- 1)]"
    using s2 s3 by (simp add: numeral_3_eq_3 rr_before_sign_bit)
  have K: "length (healthyIdx (backends (scenario\<lparr>counter := 9223372036854775806\<rparr>))) = 3"
    by (simp add: scenario_def healthyIdx_three)
  show ?thesis unfolding run K by simp
qed

section \<open>The round-robin index past the sign bit\<close>

text \<open>
  C9: at the cursor \<open>2^63 - 1\<close> and three healthy backends the incremented cursor,
  converted to \<^verbatim>\<open>int\<close>, is \<open>-2^63\<close>, its remainder by 3 is \<open>-2\<close>, and the index
  expression panics; the request handler gives no answer. The cursor has advanced and
  nothing else has changed.
\<close>

theorem round_robin_index_out_of_range:
  "getNextHealthyBackend (scenario\<lparr>counter := 9223372036854775807\<rparr>) =
     (IndexOutOfRange (- 2), scenario\<lparr>counter := 9223372036854775808\<rparr>) \<and>
   handleRequest (UpstreamReplied 200) (scenario\<lparr>counter := 9223372036854775807\<rparr>) =
     (HandlerPanicked, scenario\<lparr>counter := 9223372036854775808\<rparr>)"
  by (simp add: handleRequest_def rr_at_sign_bit) (simp add: scenario_def)

lemma probeBackend_fields:
  "Name (fst (probeBackend connected now b)) = Name b"
  "URL (fst (probeBackend connected now b)) = URL b"
  "Cmd (fst (probeBackend connected now b)) = Cmd b"
  "ActiveRequests (fst (probeBackend connected now b)) = ActiveRequests b"
  "Healthy (fst (probeBackend connected now b)) = connected"
  by (simp_all add: probeBackend_def)

lemma length_healthMonitorStep:
  "length (backends (healthMonitorStep connected now i st)) = length (backends st)"
  by (simp add: healthMonitorStep_def split: prod.splits)

lemma healthMonitorStep_nth:
  "j < length (backends st) \<Longrightarrow>
   backends (healthMonitorStep connected now i st) ! j =
     (if j = i then fst (probeBackend connected now (backends st ! i)) else backends st ! j)"
  by (simp add: healthMonitorStep_def split: prod.splits)

lemma healthMonitorPass_length:
  "length (backends (healthMonitorPass dial idxs st)) = length (backends st)"
  by (induction idxs arbitrary: st) (simp_all add: length_healthMonitorStep)

lemma healthMonitorPass_other:
  "j \<notin> set idxs \<Longrightarrow> j < length (backends st) \<Longrightarrow>
   backends (healthMonitorPass dial idxs st) ! j = backends st ! j"
proof (induction idxs arbitrary: st)
  case Nil
  show ?case by simp
next
  case (Cons i rest)
  then show ?case
    by (simp add: length_healthMonitorStep healthMonitorStep_nth)
qed

lemma healthMonitorPass_Healthy:
  "j \<in> set idxs \<Longrightarrow> distinct idxs \<Longrightarrow> j < length (backends st) \<Longrightarrow>
   Healthy (backends (healthMonitorPass dial idxs st) ! j) = fst (dial j)"
proof (induction idxs arbitrary: st)
  case Nil
  then show ?case by simp
next
  case (Cons i rest)
  show ?case
  proof (cases "j = i")
    case True
    with Cons.prems have "j \<notin> set rest" by simp
    then have "backends (healthMonitorPass dial (i # rest) st) ! j =
        backends (healthMonitorStep (fst (dial i)) (snd (dial i)) i st) ! j"
      using Cons.prems(3) by (simp add: healthMonitorPass_other length_healthMonitorStep)
    then show ?thesis
      using True Cons.prems(3) by (simp add: healthMonitorStep_nth probeBackend_fields)
  next
    case False
    with Cons.prems have "j \<in> set rest" "distinct rest" by simp_all
    then show ?thesis
      using Cons.IH [of "healthMonitorStep (fst (dial i)) (snd (dial i)) i st"] Cons.prems(3)
      by (simp add: length_healthMonitorStep)
  qed
qed

section \<open>One probe decides the health flag\<close>

text \<open>
  C8: one probe step sets the healthy flag to the outcome of the dial, whatever the flag
  was before (no retry, no hysteresis); the last-seen time becomes the clock reading on
  success and stays on failure; a line is logged exactly when the flag changes, "available
  again" from false to true and "not available" from true to false; name, address,
  process handle and active-request counter stay. In the state the step replaces that
  one backend and appends those lines, and after a pass of the monitor over all backends
  the flag of each is the outcome of its own dial.
\<close>

theorem health_probe_is_edge_triggered:
  "Healthy (fst (probeBackend connected now b)) = connected \<and>
   LastSeen (fst (probeBackend connected now b)) = (if connected then now else LastSeen b) \<and>
   snd (probeBackend connected now b) =
     (if Healthy b = connected then []
      else if connected then [LogAvailableAgain (Name b) (URL b)]
      else [LogNotAvailable (Name b) (URL b)]) \<and>
   Name (fst (probeBackend connected now b)) = Name b \<and>
   URL (fst (probeBackend connected now b)) = URL b \<and>
   Cmd (fst (probeBackend connected now b)) = Cmd b \<and>
   ActiveRequests (fst (probeBackend connected now b)) = ActiveRequests b \<and>
   (i < length (backends st) \<longrightarrow>
      healthMonitorStep connected now i st =
        st\<lparr>backends := (backends st)[i := fst (probeBackend connected now (backends st ! i))],
           logs := logs st @ snd (probeBackend connected now (backends st ! i))\<rparr> \<and>
      Healthy (backends (healthMonitorCycle dial st) ! i) = fst (dial i))"
proof -
  have cyc: "Healthy (backends (healthMonitorCycle dial st) ! i) = fst (dial i)"
    if "i < length (backends st)"
    unfolding healthMonitorCycle_def
    using that by (intro healthMonitorPass_Healthy) simp_all
  show ?thesis
    using cyc by (auto simp: probeBackend_def healthMonitorStep_def)
qed

theorem health_probe_is_edge_triggered_witness:
  "probeBackend False 30 backendA =
     (backendA\<lparr>Healthy := False\<rparr>, [LogNotAvailable ''A'' ''localhost:9001'']) \<and>
   probeBackend False 33 (backendA\<lparr>Healthy := False\<rparr>) = (backendA\<lparr>Healthy := False\<rparr>, []) \<and>
   probeBackend True 36 (backendA\<lparr>Healthy := False\<rparr>) =
     (backendA\<lparr>LastSeen := 36\<rparr>, [LogAvailableAgain ''A'' ''localhost:9001'']) \<and>
   probeBackend True 39 (backendA\<lparr>LastSeen := 36\<rparr>) = (backendA\<lparr>LastSeen := 39\<rparr>, []) \<and>
   1 < length (backends scenario) \<and>
   healthMonitorStep False 30 1 scenario =
     scenario\<lparr>backends := [backendA, backendB\<lparr>Healthy := False\<rparr>, backendC],
              logs := [LogNotAvailable ''B'' ''localhost:9002'']\<rparr> \<and>
   Healthy (backends (healthMonitorCycle (\<lambda>i. (i = 0, 42)) scenario) ! 1) = False"
proof -
  have len: "1 < length (backends scenario)" by (simp add: scenario_def)
  note t = health_probe_is_edge_triggered
  show ?thesis
    using len
      t [of False 30 backendA 1 scenario "\<lambda>i. (i = 0, 42)"]
      t [of False 33 "backendA\<lparr>Healthy := False\<rparr>" 1 scenario "\<lambda>i. (i = 0, 42)"]
      t [of True 36 "backendA\<lparr>Healthy := False\<rparr>" 1 scenario "\<lambda>i. (i = 0, 42)"]
      t [of True 39 "backendA\<lparr>LastSeen := 36\<rparr>" 1 scenario "\<lambda>i. (i = 0, 42)"]
    by (simp add: scenario_defs probeBackend_def)
qed

lemma loadStrategy_frame: "sameButStrategy st (loadStrategy f st)"
  by (simp add: sameButStrategy_def loadStrategy_def Let_def split: StrategyFile.splits)

lemma loadStrategy_strategy:
  "strategy (loadStrategy f st) =
     (if f = FileDecoded StrategyRoundRobin then StrategyRoundRobin
      else if f = FileDecoded StrategyLeastConnections then StrategyLeastConnections
      else strategy st)"
  by (auto simp: loadStrategy_def Let_def split: StrategyFile.splits)

lemma startBackend_exited:
  "exited (startBackend env i st) \<longleftrightarrow> binaryMissing env \<and> \<not> buildOk env"
  by (simp add: startBackend_def exited_def Let_def split: option.splits)

lemma startBackend_Continues:
  assumes "startBackend env i st = Continues s"
  shows "backends s =
           (case spawned env of None \<Rightarrow> backends st | Some h \<Rightarrow> setCmd i (Some h) (backends st))"
    and "counter s = counter st" and "proxyActive s = proxyActive st"
    and "kills s = kills st" and "strategy s = strategy st"
  using assms
  by (auto simp: startBackend_def Let_def split: if_splits option.splits)

lemma startBackend_same:
  assumes "sameButStrategy st st'"
    and "startBackend env i st = Continues s" and "startBackend env i st' = Continues t"
  shows "sameButStrategy s t"
proof -
  have "backends st' = backends st" using assms(1) by (simp add: sameButStrategy_def)
  then show ?thesis
    using assms(1) startBackend_Continues [OF assms(2)] startBackend_Continues [OF assms(3)]
    by (simp add: sameButStrategy_def split: option.splits)
qed

lemma startAll_strategy:
  "startAll env cfgs st = Continues s \<Longrightarrow> strategy s = strategy st"
proof (induction cfgs arbitrary: st)
  case Nil
  then show ?case by simp
next
  case (Cons cfg cfgs)
  from Cons.prems obtain b st2 where
    b: "newBackend (parseURL env) cfg = Some b"
    and st2: "startBackend (startEnv env (length (backends st))) (length (backends st))
               (st\<lparr>backends := backends st @ [b]\<rparr>) = Continues st2"
    and rest: "startAll env cfgs st2 = Continues s"
    by (auto simp: Let_def split: option.splits Outcome.splits)
  have "strategy st2 = strategy st"
    using startBackend_Continues(5) [OF st2] by simp
  with Cons.IH [OF rest] show ?case by simp
qed

lemma startAll_same:
  assumes "sameButStrategy st st'"
  shows "exited (startAll env cfgs st) = exited (startAll env cfgs st') \<and>
         (\<forall>s t. startAll env cfgs st = Continues s \<and> startAll env cfgs st' = Continues t \<longrightarrow>
            sameButStrategy s t)"
  using assms
proof (induction cfgs arbitrary: st st')
  case Nil
  then show ?case by (simp add: exited_def)
next
  case (Cons cfg cfgs)
  have bs: "backends st' = backends st" using Cons.prems by (simp add: sameButStrategy_def)
  show ?case
  proof (cases "newBackend (parseURL env) cfg")
    case None
    then show ?thesis by (simp add: exited_def)
  next
    case (Some b)
    let ?n = "length (backends st)"
    let ?a = "startBackend (startEnv env ?n) ?n (st\<lparr>backends := backends st @ [b]\<rparr>)"
    let ?a' = "startBackend (startEnv env ?n) ?n (st'\<lparr>backends := backends st' @ [b]\<rparr>)"
    have rel: "sameButStrategy (st\<lparr>backends := backends st @ [b]\<rparr>)
        (st'\<lparr>backends := backends st' @ [b]\<rparr>)"
      using Cons.prems by (simp add: sameButStrategy_def)
    have ex: "exited ?a = exited ?a'" by (simp only: startBackend_exited)
    show ?thesis
    proof (cases ?a)
      case (ProcessExited s)
      with ex obtain t where "?a' = ProcessExited t"
        by (cases ?a') (simp_all add: exited_def)
      with ProcessExited Some bs show ?thesis by (simp add: exited_def)
    next
      case (Continues s)
      with ex obtain t where t: "?a' = Continues t"
        by (cases ?a') (simp_all add: exited_def)
      have "sameButStrategy s t" using rel Continues t by (rule startBackend_same)
      from Cons.IH [OF this] Continues t Some bs show ?thesis by simp
    qed
  qed
qed

section \<open>Loading the strategy never fails the start\<close>

text \<open>
  C10: \<^verbatim>\<open>loadStrategy\<close> changes the strategy only when the file decodes to one of the
  two recognized values, and then to that value; with a missing, unreadable or malformed
  file, or any other decoded value, the strategy stays what it was, and backends, cursor
  and gate are never touched. Whether the start of the proxy ends in an exit does not
  depend on the strategy file (it is the same as with no file at all), and a start that
  gets through runs with round robin, the default, unless the file held
  least connections.
\<close>

theorem loadStrategy_never_fails_startup:
  "strategy (loadStrategy f st) =
     (if f = FileDecoded StrategyRoundRobin then StrategyRoundRobin
      else if f = FileDecoded StrategyLeastConnections then StrategyLeastConnections
      else strategy st) \<and>
   backends (loadStrategy f st) = backends st \<and>
   counter (loadStrategy f st) = counter st \<and>
   proxyActive (loadStrategy f st) = proxyActive st \<and>
   exited (mainStartup env) = exited (mainStartup (env\<lparr>strategyFile := FileNotExist\<rparr>)) \<and>
   (mainStartup env = Continues s \<longrightarrow>
      strategy s =
        (if strategyFile env = FileDecoded StrategyLeastConnections
         then StrategyLeastConnections else StrategyRoundRobin))"
proof -
  have frame: "sameButStrategy st (loadStrategy f st)" by (rule loadStrategy_frame)
  have same: "exited (mainStartup env) = exited (mainStartup (env\<lparr>strategyFile := FileNotExist\<rparr>))"
  proof (cases "configFile env")
    case ConfigError
    then show ?thesis by (simp add: mainStartup_def)
  next
    case (ConfigLoaded cfgs)
    let ?env' = "env\<lparr>strategyFile := FileNotExist\<rparr>"
    have env: "startAll ?env' cfgs = startAll env cfgs"
    proof
      fix x show "startAll ?env' cfgs x = startAll env cfgs x"
        by (induction cfgs arbitrary: x) (simp_all split: option.splits Outcome.splits)
    qed
    have "sameButStrategy (loadStrategy (strategyFile env) initialState)
        (loadStrategy FileNotExist initialState)"
      using loadStrategy_frame [of initialState "strategyFile env"]
      by (simp add: sameButStrategy_def loadStrategy_def)
    then have "exited (startAll env cfgs (loadStrategy (strategyFile env) initialState)) =
        exited (startAll env cfgs (loadStrategy FileNotExist initialState))"
      using startAll_same by blast
    then show ?thesis
      using ConfigLoaded env
      by (simp add: mainStartup_def exited_def split: Outcome.splits)
  qed
  have strat: "strategy s =
        (if strategyFile env = FileDecoded StrategyLeastConnections
         then StrategyLeastConnections else StrategyRoundRobin)"
    if "mainStartup env = Continues s"
  proof -
    from that obtain cfgs t where
      t: "startAll env cfgs (loadStrategy (strategyFile env) initialState) = Continues t"
      and s: "s = t\<lparr>proxyActive := True, logs := logs t @ [LogProxyRunning]\<rparr>"
      by (auto simp: mainStartup_def split: ConfigFile.splits Outcome.splits)
    from t have "strategy t = strategy (loadStrategy (strategyFile env) initialState)"
      by (rule startAll_strategy)
    then show ?thesis
      using s by (simp add: loadStrategy_strategy initialState_def)
  qed
  show ?thesis
    using frame same strat by (simp add: loadStrategy_strategy sameButStrategy_def)
qed

lemma startupA_runs:
  "mainStartup startupA =
     Continues \<lparr>backends = [backendA\<lparr>Healthy := False\<rparr>], counter = 0, proxyActive = True,
                strategy = StrategyRoundRobin,
                logs = [LogDecodeFailed, LogAutomaticallyStarted ''A'', LogProxyRunning],
                kills = []\<rparr>"
  by (simp add: mainStartup_def startupA_def loadStrategy_def initialState_def newBackend_def
        startBackend_def setCmd_def backendA_def Let_def)

theorem loadStrategy_never_fails_startup_witness:
  "mainStartup startupA =
     Continues \<lparr>backends = [backendA\<lparr>Healthy := False\<rparr>], counter = 0, proxyActive = True,
                strategy = StrategyRoundRobin,
                logs = [LogDecodeFailed, LogAutomaticallyStarted ''A'', LogProxyRunning],
                kills = []\<rparr> \<and>
   \<not> exited (mainStartup startupA) \<and>
   \<not> exited (mainStartup (startupA\<lparr>strategyFile := FileNotExist\<rparr>)) \<and>
   strategy (loadStrategy FileNotExist initialState) = StrategyRoundRobin \<and>
   strategy (loadStrategy FileOpenError initialState) = StrategyRoundRobin \<and>
   strategy (loadStrategy FileDecodeError initialState) = StrategyRoundRobin \<and>
   strategy (loadStrategy (FileDecoded ''fastest'') initialState) = StrategyRoundRobin \<and>
   strategy (loadStrategy (FileDecoded ''least_connections'') initialState) =
     StrategyLeastConnections"
proof -
  note t = loadStrategy_never_fails_startup
  have init: "strategy initialState = StrategyRoundRobin" by (simp add: initialState_def)
  have ne: "\<not> exited (mainStartup startupA)" by (simp add: startupA_runs exited_def)
  have "exited (mainStartup startupA) =
      exited (mainStartup (startupA\<lparr>strategyFile := FileNotExist\<rparr>))"
    using t [of FileNotExist initialState startupA] by blast
  with ne have ne': "\<not> exited (mainStartup (startupA\<lparr>strategyFile := FileNotExist\<rparr>))"
    by blast
  have a: "strategy (loadStrategy FileNotExist initialState) = StrategyRoundRobin"
    using t [THEN conjunct1, of FileNotExist initialState] by (simp add: init)
  have b: "strategy (loadStrategy FileOpenError initialState) = StrategyRoundRobin"
    using t [THEN conjunct1, of FileOpenError initialState] by (simp add: init)
  have c: "strategy (loadStrategy FileDecodeError initialState) = StrategyRoundRobin"
    using t [THEN conjunct1, of FileDecodeError initialState] by (simp add: init)
  have d: "strategy (loadStrategy (FileDecoded ''fastest'') initialState) = StrategyRoundRobin"
    using t [THEN conjunct1, of "FileDecoded ''fastest''" initialState]
    by (simp add: init StrategyRoundRobin_def StrategyLeastConnections_def)
  have e: "strategy (loadStrategy (FileDecoded ''least_connections'') initialState) =
      StrategyLeastConnections"
    using t [THEN conjunct1, of "FileDecoded ''least_connections''" initialState]
    by (simp add: init StrategyRoundRobin_def StrategyLeastConnections_def)
  from startupA_runs ne ne' a b c d e show ?thesis by blast
qed

text \<open>The stop loop passes over every position that does not hold a named backend with a process.\<close>

lemma stopLoop_skip:
  assumes "\<forall>j\<in>set pre. \<not> (Name (backends st ! j) = name \<and> Cmd (backends st ! j) \<noteq> None)"
  shows "stopLoop killOk name (pre @ rest) st = stopLoop killOk name rest st"
  using assms by (induction pre) (auto split: option.splits)

lemma upt_split_at: "i < n \<Longrightarrow> [0..<n] = [0..<i] @ i # [Suc i..<n]"
  by (metis less_imp_le_nat upt_add_eq_append upt_conv_Cons le_add_diff_inverse zero_le plus_nat.add_0)

lemma handleStopBackend_first:
  assumes "name \<noteq> []" and "i < length (backends st)"
    and "Name (backends st ! i) = name" and "Cmd (backends st ! i) = Some h"
    and "\<forall>j<i. \<not> (Name (backends st ! j) = name \<and> Cmd (backends st ! j) \<noteq> None)"
  shows "handleStopBackend killOk name st =
          (if killOk h then
             (JsonMessage ''Backend gestoppt'',
              st\<lparr>backends := (backends st)[i := (backends st ! i)\<lparr>Healthy := False\<rparr>],
                 logs := logs st @ [LogManuallyStopped name],
                 kills := kills st @ [h]\<rparr>)
           else
             (HttpError StatusInternalServerError ''Fehler beim Stoppen'',
              st\<lparr>kills := kills st @ [h]\<rparr>))"
proof -
  have split: "[0..<length (backends st)] = [0..<i] @ i # [Suc i..<length (backends st)]"
    using assms(2) by (rule upt_split_at)
  have skip: "\<forall>j\<in>set [0..<i]. \<not> (Name (backends st ! j) = name \<and> Cmd (backends st ! j) \<noteq> None)"
    using assms(5) by simp
  have "handleStopBackend killOk name st =
      stopLoop killOk name (i # [Suc i..<length (backends st)]) st"
    using assms(1) by (simp add: handleStopBackend_def split stopLoop_skip [OF skip])
  then show ?thesis
    using assms(3,4) by (simp add: Let_def setHealthy_def)
qed

lemma handleStopBackend_none:
  assumes "name \<noteq> []"
    and "\<forall>j<length (backends st). \<not> (Name (backends st ! j) = name \<and> Cmd (backends st ! j) \<noteq> None)"
  shows "handleStopBackend killOk name st =
           (HttpError StatusNotFound ''Backend nicht gefunden oder bereits gestoppt'', st)"
proof -
  have "\<forall>j\<in>set [0..<length (backends st)].
      \<not> (Name (backends st ! j) = name \<and> Cmd (backends st ! j) \<noteq> None)"
    using assms(2) by simp
  from stopLoop_skip [OF this, of killOk "[]"] show ?thesis
    using assms(1) by (simp add: handleStopBackend_def)
qed

section \<open>Stopping a backend\<close>

text \<open>
  What the stop handler of the code does, for a non-empty name whose first backend with
  a process handle is at position \<open>i\<close>: it sends a kill to the handle; when the kill
  succeeds it clears the healthy flag at once, which takes the backend out of the
  selection; when the kill fails it answers with an internal error. With no such
  backend the answer is not-found.
\<close>

lemma handleStopBackend_outcomes:
  assumes "name \<noteq> []" and "i < length (backends st)"
    and "Name (backends st ! i) = name" and "Cmd (backends st ! i) = Some h"
    and "\<forall>j<i. \<not> (Name (backends st ! j) = name \<and> Cmd (backends st ! j) \<noteq> None)"
  shows "(killOk h \<longrightarrow>
            handleStopBackend killOk name st =
              (JsonMessage ''Backend gestoppt'',
               st\<lparr>backends := (backends st)[i := (backends st ! i)\<lparr>Healthy := False\<rparr>],
                  logs := logs st @ [LogManuallyStopped name],
                  kills := kills st @ [h]\<rparr>) \<and>
            i \<notin> set (healthyIdx (backends (snd (handleStopBackend killOk name st)))) \<and>
            Cmd (backends (snd (handleStopBackend killOk name st)) ! i) = Some h) \<and>
         (\<not> killOk h \<longrightarrow>
            handleStopBackend killOk name st =
              (HttpError StatusInternalServerError ''Fehler beim Stoppen'',
               st\<lparr>kills := kills st @ [h]\<rparr>)) \<and>
         ((\<forall>j<length (backends st'). \<not> (Name (backends st' ! j) = name \<and>
                                          Cmd (backends st' ! j) \<noteq> None)) \<longrightarrow>
            handleStopBackend killOk name st' =
              (HttpError StatusNotFound ''Backend nicht gefunden oder bereits gestoppt'', st'))"
proof -
  note first = handleStopBackend_first [OF assms, of killOk]
  have ok: "i \<notin> set (healthyIdx (backends (snd (handleStopBackend killOk name st))))"
    "Cmd (backends (snd (handleStopBackend killOk name st)) ! i) = Some h"
    if "killOk h"
    using that assms(2,4) by (simp_all add: first set_healthyIdx)
  show ?thesis
    using first ok handleStopBackend_none [OF assms(1), of st' killOk] by simp
qed

lemmas stop_defs = handleStopBackend_def setHealthy_def Let_def upt_rec

text \<open>
  After a stop that succeeded the handle is still attached, and a second stop of the
  same name finds the same backend again: its answer is never not-found.
\<close>

lemma second_stop_is_not_not_found:
  assumes "name \<noteq> []" and "i < length (backends st)"
    and "Name (backends st ! i) = name" and "Cmd (backends st ! i) = Some h"
    and "\<forall>j<i. \<not> (Name (backends st ! j) = name \<and> Cmd (backends st ! j) \<noteq> None)"
    and "killOk h"
  shows "Cmd (backends (snd (handleStopBackend killOk name st)) ! i) = Some h \<and>
         fst (handleStopBackend killOk' name (snd (handleStopBackend killOk name st))) =
           (if killOk' h then JsonMessage ''Backend gestoppt''
            else HttpError StatusInternalServerError ''Fehler beim Stoppen'')"
proof -
  let ?bs = "backends st"
  let ?st1 = "st\<lparr>backends := ?bs[i := (?bs ! i)\<lparr>Healthy := False\<rparr>],
                 logs := logs st @ [LogManuallyStopped name],
                 kills := kills st @ [h]\<rparr>"
  have one: "snd (handleStopBackend killOk name st) = ?st1"
    using handleStopBackend_first [OF assms(1-5), of killOk] assms(6) by simp
  have b1: "i < length (backends ?st1)" using assms(2) by simp
  have b2: "Name (backends ?st1 ! i) = name" using assms(2,3) by simp
  have b3: "Cmd (backends ?st1 ! i) = Some h" using assms(2,4) by simp
  have b4: "\<forall>j<i. \<not> (Name (backends ?st1 ! j) = name \<and> Cmd (backends ?st1 ! j) \<noteq> None)"
    using assms(5) by simp
  have two: "fst (handleStopBackend killOk' name ?st1) =
      (if killOk' h then JsonMessage ''Backend gestoppt''
       else HttpError StatusInternalServerError ''Fehler beim Stoppen'')"
    using handleStopBackend_first [OF assms(1) b1 b2 b3 b4, of killOk'] by simp
  show ?thesis unfolding one using b3 two by blast
qed

text \<open>
  C6: the stop should detach the process handle and report not-found for a backend
  that is already stopped, as the not-found text of the handler itself says ("nicht
  gefunden oder bereits gestoppt"). The code does neither: after the stop of the running
  backend A (answered as stopped, healthy flag cleared) its handle 11 is still attached,
  and a second stop is not answered with not-found; it sends the kill once more and
  answers as stopped when that kill succeeds and with an internal error when it fails.
\<close>

theorem stop_does_not_detach_handle:
  "fst (handleStopBackend (\<lambda>h. True) ''A'' scenario) = JsonMessage ''Backend gestoppt'' \<and>
   Healthy (backends (snd (handleStopBackend (\<lambda>h. True) ''A'' scenario)) ! 0) = False \<and>
   Cmd (backends (snd (handleStopBackend (\<lambda>h. True) ''A'' scenario)) ! 0) = Some 11 \<and>
   fst (handleStopBackend (\<lambda>h. True) ''A''
         (snd (handleStopBackend (\<lambda>h. True) ''A'' scenario))) =
     JsonMessage ''Backend gestoppt'' \<and>
   fst (handleStopBackend (\<lambda>h. False) ''A''
         (snd (handleStopBackend (\<lambda>h. True) ''A'' scenario))) =
     HttpError StatusInternalServerError ''Fehler beim Stoppen''"
  by (simp add: stop_defs scenario_defs)

lemma startOrRestartLoop_skip:
  assumes "\<forall>j\<in>set pre. Name (backends st ! j) \<noteq> name"
  shows "startOrRestartLoop env name (pre @ rest) st = startOrRestartLoop env name rest st"
  using assms by (induction pre) auto

text \<open>What the start handler has logged and killed before it calls \<^verbatim>\<open>startBackend\<close>.\<close>

lemma handleStartOrRestartBackend_first:
  assumes "name \<noteq> []" and "i < length (backends st)"
    and "Name (backends st ! i) = name"
    and "\<forall>j<i. Name (backends st ! j) \<noteq> name"
  shows "handleStartOrRestartBackend env name st =
           (case startBackend env i
                   (case Cmd (backends st ! i) of
                      Some h \<Rightarrow> st\<lparr>logs := logs st @ [LogRestarting name],
                                    kills := kills st @ [h]\<rparr>
                    | None \<Rightarrow> st\<lparr>logs := logs st @ [LogStarting name]\<rparr>) of
              ProcessExited st2 \<Rightarrow> ProcessExited st2
            | Continues st2 \<Rightarrow> Continues (JsonMessage ''Backend gestartet/neu gestartet'', st2))"
proof -
  have split: "[0..<length (backends st)] = [0..<i] @ i # [Suc i..<length (backends st)]"
    using assms(2) by (rule upt_split_at)
  have skip: "\<forall>j\<in>set [0..<i]. Name (backends st ! j) \<noteq> name"
    using assms(4) by simp
  have "handleStartOrRestartBackend env name st =
      startOrRestartLoop env name (i # [Suc i..<length (backends st)]) st"
    using assms(1)
    by (simp add: handleStartOrRestartBackend_def split startOrRestartLoop_skip [OF skip])
  then show ?thesis
    using assms(3) by (simp add: Let_def cong: option.case_cong Outcome.case_cong)
qed

lemma startBackend_length:
  "startBackend env i st = Continues s \<Longrightarrow> length (backends s) = length (backends st)"
  by (auto simp: startBackend_def Let_def setCmd_def split: if_splits option.splits)

lemma startBackend_nth_other:
  "startBackend env i st = Continues s \<Longrightarrow> j \<noteq> i \<Longrightarrow> backends s ! j = backends st ! j"
  by (auto simp: startBackend_def Let_def setCmd_def split: if_splits option.splits)

lemma startBackend_Cmd:
  "startBackend env i st = Continues s \<Longrightarrow> i < length (backends st) \<Longrightarrow>
   Cmd (backends s ! i) =
     (case spawned env of None \<Rightarrow> Cmd (backends st ! i) | Some h \<Rightarrow> Some h)"
  by (auto simp: startBackend_def Let_def setCmd_def split: if_splits option.splits)

lemma startBackend_logs_mono:
  "startBackend env i st = Continues s \<Longrightarrow> set (logs st) \<subseteq> set (logs s)"
  by (auto simp: startBackend_def Let_def split: if_splits option.splits)

lemma startBackend_logs_failed_spawn:
  "startBackend env i st = Continues s \<Longrightarrow> spawned env = None \<Longrightarrow>
   LogCouldNotStart (Name (backends st ! i)) \<in> set (logs s)"
  by (auto simp: startBackend_def Let_def split: if_splits option.splits)

lemma startBackend_exit_logs:
  "startBackend env i st = ProcessExited s \<Longrightarrow>
   logs s = logs st @ [LogBuildingBinary, LogBuildError]"
  by (auto simp: startBackend_def Let_def split: if_splits option.splits)

lemma startAll_build_failure_exits:
  assumes "k < length cfgs"
    and "binaryMissing (startEnv env (length (backends st) + k))"
    and "\<not> buildOk (startEnv env (length (backends st) + k))"
  shows "exited (startAll env cfgs st)"
  using assms
proof (induction cfgs arbitrary: st k)
  case Nil
  then show ?case by simp
next
  case (Cons cfg cfgs)
  let ?n = "length (backends st)"
  show ?case
  proof (cases "newBackend (parseURL env) cfg")
    case None
    then show ?thesis by (simp add: exited_def)
  next
    case (Some b)
    let ?st1 = "st\<lparr>backends := backends st @ [b]\<rparr>"
    show ?thesis
    proof (cases "startBackend (startEnv env ?n) ?n ?st1")
      case (ProcessExited s)
      with Some show ?thesis by (simp add: exited_def)
    next
      case (Continues st2)
      have len2: "length (backends st2) = Suc ?n"
        using startBackend_length [OF Continues] by simp
      have here: "\<not> (binaryMissing (startEnv env ?n) \<and> \<not> buildOk (startEnv env ?n))"
        using startBackend_exited [of "startEnv env ?n" ?n ?st1] Continues
        by (simp add: exited_def)
      with Cons.prems(2,3) obtain k' where k': "k = Suc k'" by (cases k) auto
      with Cons.prems have "k' < length cfgs"
        and "binaryMissing (startEnv env (length (backends st2) + k'))"
        and "\<not> buildOk (startEnv env (length (backends st2) + k'))"
        by (simp_all add: len2)
      then have "exited (startAll env cfgs st2)" by (rule Cons.IH)
      with Some Continues show ?thesis by simp
    qed
  qed
qed

lemma startAll_first_build_failure:
  assumes "k < length cfgs"
    and "\<forall>j\<le>k. parseURL env (cfgs ! j) \<noteq> None"
    and "\<forall>j<k. \<not> (binaryMissing (startEnv env (length (backends st) + j)) \<and>
                   \<not> buildOk (startEnv env (length (backends st) + j)))"
    and "binaryMissing (startEnv env (length (backends st) + k))"
    and "\<not> buildOk (startEnv env (length (backends st) + k))"
  shows "\<exists>s pre. startAll env cfgs st = ProcessExited s \<and>
           logs s = pre @ [LogBuildingBinary, LogBuildError]"
  using assms
proof (induction cfgs arbitrary: st k)
  case Nil
  then show ?case by simp
next
  case (Cons cfg cfgs)
  let ?n = "length (backends st)"
  from Cons.prems(2) have "parseURL env cfg \<noteq> None" by auto
  then obtain b where b: "newBackend (parseURL env) cfg = Some b"
    by (auto simp: newBackend_def)
  let ?st1 = "st\<lparr>backends := backends st @ [b]\<rparr>"
  show ?case
  proof (cases k)
    case 0
    with Cons.prems(4,5) have "exited (startBackend (startEnv env ?n) ?n ?st1)"
      by (simp add: startBackend_exited)
    then obtain s where s: "startBackend (startEnv env ?n) ?n ?st1 = ProcessExited s"
      by (cases "startBackend (startEnv env ?n) ?n ?st1") (simp_all add: exited_def)
    from startBackend_exit_logs [OF s] b s show ?thesis by simp
  next
    case (Suc k')
    with Cons.prems(3) have "\<not> exited (startBackend (startEnv env ?n) ?n ?st1)"
      by (auto simp: startBackend_exited)
    then obtain st2 where st2: "startBackend (startEnv env ?n) ?n ?st1 = Continues st2"
      by (cases "startBackend (startEnv env ?n) ?n ?st1") (simp_all add: exited_def)
    have len2: "length (backends st2) = Suc ?n"
      using startBackend_length [OF st2] by simp
    have p1: "k' < length cfgs" using Cons.prems(1) Suc by simp
    have p2: "\<forall>j\<le>k'. parseURL env (cfgs ! j) \<noteq> None"
    proof (intro allI impI)
      fix j assume "j \<le> k'"
      then have "Suc j \<le> k" using Suc by simp
      with Cons.prems(2) have "parseURL env ((cfg # cfgs) ! Suc j) \<noteq> None" by blast
      then show "parseURL env (cfgs ! j) \<noteq> None" by simp
    qed
    have p3: "\<forall>j<k'. \<not> (binaryMissing (startEnv env (length (backends st2) + j)) \<and>
                   \<not> buildOk (startEnv env (length (backends st2) + j)))"
    proof (intro allI impI)
      fix j assume "j < k'"
      then have "Suc j < k" using Suc by simp
      with Cons.prems(3) show "\<not> (binaryMissing (startEnv env (length (backends st2) + j)) \<and>
                   \<not> buildOk (startEnv env (length (backends st2) + j)))"
        unfolding len2 by (metis add_Suc_right add_Suc)
    qed
    have p4: "binaryMissing (startEnv env (length (backends st2) + k'))"
      and p5: "\<not> buildOk (startEnv env (length (backends st2) + k'))"
      using Cons.prems(4,5) Suc by (simp_all add: len2)
    from Cons.IH [OF p1 p2 p3 p4 p5] b st2 show ?thesis by simp
  qed
qed

lemma startAll_keeps:
  assumes "startAll env cfgs st = Continues s"
  shows "length (backends s) = length (backends st) + length cfgs \<and>
         (\<forall>j<length (backends st). backends s ! j = backends st ! j) \<and>
         set (logs st) \<subseteq> set (logs s)"
  using assms
proof (induction cfgs arbitrary: st)
  case Nil
  then show ?case by simp
next
  case (Cons cfg cfgs)
  let ?n = "length (backends st)"
  from Cons.prems obtain b st2 where
    b: "newBackend (parseURL env) cfg = Some b"
    and st2: "startBackend (startEnv env ?n) ?n (st\<lparr>backends := backends st @ [b]\<rparr>) =
               Continues st2"
    and rest: "startAll env cfgs st2 = Continues s"
    by (auto simp: Let_def split: option.splits Outcome.splits)
  have len2: "length (backends st2) = Suc ?n"
    using startBackend_length [OF st2] by simp
  have old: "\<forall>j<?n. backends st2 ! j = backends st ! j"
    using startBackend_nth_other [OF st2] by (simp add: nth_append)
  have logs2: "set (logs st) \<subseteq> set (logs st2)"
    using startBackend_logs_mono [OF st2] by simp
  from Cons.IH [OF rest]
  have ih1: "length (backends s) = length (backends st2) + length cfgs"
    and ih2: "\<forall>j<length (backends st2). backends s ! j = backends st2 ! j"
    and ih3: "set (logs st2) \<subseteq> set (logs s)"
    by simp_all
  have "length (backends s) = ?n + length (cfg # cfgs)" using ih1 len2 by simp
  moreover have "\<forall>j<?n. backends s ! j = backends st ! j" using ih2 old len2 by simp
  moreover have "set (logs st) \<subseteq> set (logs s)" using logs2 ih3 by blast
  ultimately show ?case by blast
qed

lemma startAll_gets_through:
  assumes "\<forall>j<length cfgs. parseURL env (cfgs ! j) \<noteq> None \<and>
             \<not> (binaryMissing (startEnv env (length (backends st) + j)) \<and>
                \<not> buildOk (startEnv env (length (backends st) + j)))"
  shows "\<exists>s. startAll env cfgs st = Continues s \<and>
           proxyActive s = proxyActive st \<and>
           (\<forall>j<length cfgs.
              Cmd (backends s ! (length (backends st) + j)) =
                spawned (startEnv env (length (backends st) + j)) \<and>
              (spawned (startEnv env (length (backends st) + j)) = None \<longrightarrow>
                 LogCouldNotStart (cfgName (cfgs ! j)) \<in> set (logs s)))"
  using assms
proof (induction cfgs arbitrary: st)
  case Nil
  then show ?case by simp
next
  case (Cons cfg cfgs)
  let ?n = "length (backends st)"
  from Cons.prems have "parseURL env cfg \<noteq> None"
    and nofail: "\<not> (binaryMissing (startEnv env ?n) \<and> \<not> buildOk (startEnv env ?n))"
    by fastforce+
  then obtain b where b: "newBackend (parseURL env) cfg = Some b"
    and bname: "Name b = cfgName cfg" and bcmd: "Cmd b = None"
    by (auto simp: newBackend_def)
  let ?st1 = "st\<lparr>backends := backends st @ [b]\<rparr>"
  from nofail have "\<not> exited (startBackend (startEnv env ?n) ?n ?st1)"
    by (simp add: startBackend_exited)
  then obtain st2 where st2: "startBackend (startEnv env ?n) ?n ?st1 = Continues st2"
    by (cases "startBackend (startEnv env ?n) ?n ?st1") (simp_all add: exited_def)
  have len2: "length (backends st2) = Suc ?n"
    using startBackend_length [OF st2] by simp
  have cmd2: "Cmd (backends st2 ! ?n) = spawned (startEnv env ?n)"
    using startBackend_Cmd [OF st2] bcmd by (simp split: option.splits)
  have log2: "LogCouldNotStart (cfgName cfg) \<in> set (logs st2)"
    if "spawned (startEnv env ?n) = None"
    using startBackend_logs_failed_spawn [OF st2 that] bname by simp
  have act2: "proxyActive st2 = proxyActive st"
    using startBackend_Continues(3) [OF st2] by simp
  have "\<forall>j<length cfgs. parseURL env (cfgs ! j) \<noteq> None \<and>
             \<not> (binaryMissing (startEnv env (length (backends st2) + j)) \<and>
                \<not> buildOk (startEnv env (length (backends st2) + j)))"
  proof (intro allI impI)
    fix j assume "j < length cfgs"
    then have "Suc j < length (cfg # cfgs)" by simp
    with Cons.prems have "parseURL env ((cfg # cfgs) ! Suc j) \<noteq> None \<and>
             \<not> (binaryMissing (startEnv env (?n + Suc j)) \<and>
                \<not> buildOk (startEnv env (?n + Suc j)))" by blast
    then show "parseURL env (cfgs ! j) \<noteq> None \<and>
             \<not> (binaryMissing (startEnv env (length (backends st2) + j)) \<and>
                \<not> buildOk (startEnv env (length (backends st2) + j)))"
      by (simp add: len2)
  qed
  from Cons.IH [OF this] obtain s where
    s: "startAll env cfgs st2 = Continues s"
    and sact: "proxyActive s = proxyActive st2"
    and sall: "\<forall>j<length cfgs.
              Cmd (backends s ! (length (backends st2) + j)) =
                spawned (startEnv env (length (backends st2) + j)) \<and>
              (spawned (startEnv env (length (backends st2) + j)) = None \<longrightarrow>
                 LogCouldNotStart (cfgName (cfgs ! j)) \<in> set (logs s))"
    by blast
  have keep: "backends s ! ?n = backends st2 ! ?n" and logs: "set (logs st2) \<subseteq> set (logs s)"
    using startAll_keeps [OF s] len2 by simp_all
  have run: "startAll env (cfg # cfgs) st = Continues s"
    using b st2 s by simp
  have "\<forall>j<length (cfg # cfgs).
              Cmd (backends s ! (?n + j)) = spawned (startEnv env (?n + j)) \<and>
              (spawned (startEnv env (?n + j)) = None \<longrightarrow>
                 LogCouldNotStart (cfgName ((cfg # cfgs) ! j)) \<in> set (logs s))"
  proof (intro allI impI)
    fix j assume j: "j < length (cfg # cfgs)"
    show "Cmd (backends s ! (?n + j)) = spawned (startEnv env (?n + j)) \<and>
              (spawned (startEnv env (?n + j)) = None \<longrightarrow>
                 LogCouldNotStart (cfgName ((cfg # cfgs) ! j)) \<in> set (logs s))"
    proof (cases j)
      case 0
      with keep cmd2 log2 logs show ?thesis by auto
    next
      case (Suc j')
      with j have "j' < length cfgs" by simp
      with sall Suc show ?thesis by (simp add: len2)
    qed
  qed
  with run sact act2 show ?case by simp
qed

lemma mainStartup_loaded:
  "configFile senv = ConfigLoaded cfgs \<Longrightarrow>
   mainStartup senv =
     (case startAll senv cfgs (loadStrategy (strategyFile senv) initialState) of
        ProcessExited st \<Rightarrow> ProcessExited st
      | Continues st \<Rightarrow>
          Continues (st\<lparr>proxyActive := True, logs := logs st @ [LogProxyRunning]\<rparr>))"
  by (simp add: mainStartup_def)

lemma loadStrategy_no_backends: "backends (loadStrategy f initialState) = []"
  using loadStrategy_frame [of initialState f]
  by (simp add: sameButStrategy_def initialState_def)

section \<open>Failures of starting a backend\<close>

text \<open>
  C7, as amended. In the start handler, for a non-empty name whose first backend is at
  position \<open>i\<close>: when the backend binary is missing and building it fails, the
  failure is logged and the proxy process itself exits; when the binary is there (or
  was built), spawning fails and the backend has no process handle, the failure is
  logged once, the backend stays without a process handle, nothing is tried again, and
  the proxy keeps running and answers the request; when spawning succeeds the new
  handle is attached, so a later start through the handler makes up for a failed one.
  In the start of the proxy: when the build fails for a configured backend the proxy
  exits, and where that is the first failure of the start the last lines of the log are
  those of the build; when every address parses and no build fails, the start gets
  through with the gate open, each backend has the handle its spawn gave, none where
  the spawn failed, and each failed spawn is in the log.
\<close>

theorem start_failure_outcomes:
  "(name \<noteq> [] \<and> i < length (backends st) \<and> Name (backends st ! i) = name \<and>
    (\<forall>j<i. Name (backends st ! j) \<noteq> name) \<longrightarrow>
      (binaryMissing env \<and> \<not> buildOk env \<longrightarrow>
         handleStartOrRestartBackend env name st =
           ProcessExited
             (st\<lparr>logs := logs st @
                    [case Cmd (backends st ! i) of
                       Some h \<Rightarrow> LogRestarting name | None \<Rightarrow> LogStarting name,
                     LogBuildingBinary, LogBuildError],
                 kills := kills st @
                    (case Cmd (backends st ! i) of Some h \<Rightarrow> [h] | None \<Rightarrow> [])\<rparr>)) \<and>
      (\<not> (binaryMissing env \<and> \<not> buildOk env) \<and> spawned env = None \<and>
       Cmd (backends st ! i) = None \<longrightarrow>
         handleStartOrRestartBackend env name st =
           Continues
             (JsonMessage ''Backend gestartet/neu gestartet'',
              st\<lparr>logs := logs st @ [LogStarting name] @
                    (if binaryMissing env then [LogBuildingBinary] else []) @
                    [LogCouldNotStart name]\<rparr>)) \<and>
      (\<not> (binaryMissing env \<and> \<not> buildOk env) \<and> spawned env = Some h' \<longrightarrow>
         (\<exists>st'. handleStartOrRestartBackend env name st =
                  Continues (JsonMessage ''Backend gestartet/neu gestartet'', st') \<and>
                Cmd (backends st' ! i) = Some h'))) \<and>
   (configFile senv = ConfigLoaded cfgs \<and> k < length cfgs \<and>
    binaryMissing (startEnv senv k) \<and> \<not> buildOk (startEnv senv k) \<longrightarrow>
      exited (mainStartup senv) \<and>
      ((\<forall>j\<le>k. parseURL senv (cfgs ! j) \<noteq> None) \<and>
       (\<forall>j<k. \<not> (binaryMissing (startEnv senv j) \<and> \<not> buildOk (startEnv senv j))) \<longrightarrow>
         (\<exists>s pre. mainStartup senv = ProcessExited s \<and>
                  logs s = pre @ [LogBuildingBinary, LogBuildError]))) \<and>
   (configFile senv = ConfigLoaded cfgs \<and>
    (\<forall>j<length cfgs. parseURL senv (cfgs ! j) \<noteq> None \<and>
        \<not> (binaryMissing (startEnv senv j) \<and> \<not> buildOk (startEnv senv j))) \<longrightarrow>
      (\<exists>s. mainStartup senv = Continues s \<and> proxyActive s \<and>
           (\<forall>j<length cfgs.
              Cmd (backends s ! j) = spawned (startEnv senv j) \<and>
              (spawned (startEnv senv j) = None \<longrightarrow>
                 LogCouldNotStart (cfgName (cfgs ! j)) \<in> set (logs s)))))"
proof (intro conjI)
  show "name \<noteq> [] \<and> i < length (backends st) \<and> Name (backends st ! i) = name \<and>
    (\<forall>j<i. Name (backends st ! j) \<noteq> name) \<longrightarrow>
      (binaryMissing env \<and> \<not> buildOk env \<longrightarrow>
         handleStartOrRestartBackend env name st =
           ProcessExited
             (st\<lparr>logs := logs st @
                    [case Cmd (backends st ! i) of
                       Some h \<Rightarrow> LogRestarting name | None \<Rightarrow> LogStarting name,
                     LogBuildingBinary, LogBuildError],
                 kills := kills st @
                    (case Cmd (backends st ! i) of Some h \<Rightarrow> [h] | None \<Rightarrow> [])\<rparr>)) \<and>
      (\<not> (binaryMissing env \<and> \<not> buildOk env) \<and> spawned env = None \<and>
       Cmd (backends st ! i) = None \<longrightarrow>
         handleStartOrRestartBackend env name st =
           Continues
             (JsonMessage ''Backend gestartet/neu gestartet'',
              st\<lparr>logs := logs st @ [LogStarting name] @
                    (if binaryMissing env then [LogBuildingBinary] else []) @
                    [LogCouldNotStart name]\<rparr>)) \<and>
      (\<not> (binaryMissing env \<and> \<not> buildOk env) \<and> spawned env = Some h' \<longrightarrow>
         (\<exists>st'. handleStartOrRestartBackend env name st =
                  Continues (JsonMessage ''Backend gestartet/neu gestartet'', st') \<and>
                Cmd (backends st' ! i) = Some h'))"
  proof
    assume a: "name \<noteq> [] \<and> i < length (backends st) \<and> Name (backends st ! i) = name \<and>
      (\<forall>j<i. Name (backends st ! j) \<noteq> name)"
    then have a1: "name \<noteq> []" and a2: "i < length (backends st)"
      and a3: "Name (backends st ! i) = name"
      and a4: "\<forall>j<i. Name (backends st ! j) \<noteq> name"
      by simp_all
    note first = handleStartOrRestartBackend_first [OF a1 a2 a3 a4, of env]
    show "(binaryMissing env \<and> \<not> buildOk env \<longrightarrow>
         handleStartOrRestartBackend env name st =
           ProcessExited
             (st\<lparr>logs := logs st @
                    [case Cmd (backends st ! i) of
                       Some h \<Rightarrow> LogRestarting name | None \<Rightarrow> LogStarting name,
                     LogBuildingBinary, LogBuildError],
                 kills := kills st @
                    (case Cmd (backends st ! i) of Some h \<Rightarrow> [h] | None \<Rightarrow> [])\<rparr>)) \<and>
      (\<not> (binaryMissing env \<and> \<not> buildOk env) \<and> spawned env = None \<and>
       Cmd (backends st ! i) = None \<longrightarrow>
         handleStartOrRestartBackend env name st =
           Continues
             (JsonMessage ''Backend gestartet/neu gestartet'',
              st\<lparr>logs := logs st @ [LogStarting name] @
                    (if binaryMissing env then [LogBuildingBinary] else []) @
                    [LogCouldNotStart name]\<rparr>)) \<and>
      (\<not> (binaryMissing env \<and> \<not> buildOk env) \<and> spawned env = Some h' \<longrightarrow>
         (\<exists>st'. handleStartOrRestartBackend env name st =
                  Continues (JsonMessage ''Backend gestartet/neu gestartet'', st') \<and>
                Cmd (backends st' ! i) = Some h'))"
    proof (cases "Cmd (backends st ! i)")
      case None
      then show ?thesis
        using a2 a3 by (auto simp: first startBackend_def Let_def setCmd_def)
    next
      case (Some h)
      then show ?thesis
        using a2 a3 by (auto simp: first startBackend_def Let_def setCmd_def)
    qed
  qed
next
  show "configFile senv = ConfigLoaded cfgs \<and> k < length cfgs \<and>
    binaryMissing (startEnv senv k) \<and> \<not> buildOk (startEnv senv k) \<longrightarrow>
      exited (mainStartup senv) \<and>
      ((\<forall>j\<le>k. parseURL senv (cfgs ! j) \<noteq> None) \<and>
       (\<forall>j<k. \<not> (binaryMissing (startEnv senv j) \<and> \<not> buildOk (startEnv senv j))) \<longrightarrow>
         (\<exists>s pre. mainStartup senv = ProcessExited s \<and>
                  logs s = pre @ [LogBuildingBinary, LogBuildError]))"
  proof (intro impI conjI)
    assume a: "configFile senv = ConfigLoaded cfgs \<and> k < length cfgs \<and>
      binaryMissing (startEnv senv k) \<and> \<not> buildOk (startEnv senv k)"
    let ?st0 = "loadStrategy (strategyFile senv) initialState"
    have n0: "length (backends ?st0) = 0" by (simp add: loadStrategy_no_backends)
    have "exited (startAll senv cfgs ?st0)"
      using a by (intro startAll_build_failure_exits [where k = k]) (simp_all add: n0)
    then show "exited (mainStartup senv)"
      using a by (simp add: mainStartup_loaded exited_def split: Outcome.splits)
    assume b: "(\<forall>j\<le>k. parseURL senv (cfgs ! j) \<noteq> None) \<and>
       (\<forall>j<k. \<not> (binaryMissing (startEnv senv j) \<and> \<not> buildOk (startEnv senv j)))"
    have "\<exists>s pre. startAll senv cfgs ?st0 = ProcessExited s \<and>
           logs s = pre @ [LogBuildingBinary, LogBuildError]"
      using a b by (intro startAll_first_build_failure [where k = k]) (simp_all add: n0)
    then show "\<exists>s pre. mainStartup senv = ProcessExited s \<and>
                  logs s = pre @ [LogBuildingBinary, LogBuildError]"
      using a by (auto simp: mainStartup_loaded)
  qed
next
  show "configFile senv = ConfigLoaded cfgs \<and>
    (\<forall>j<length cfgs. parseURL senv (cfgs ! j) \<noteq> None \<and>
        \<not> (binaryMissing (startEnv senv j) \<and> \<not> buildOk (startEnv senv j))) \<longrightarrow>
      (\<exists>s. mainStartup senv = Continues s \<and> proxyActive s \<and>
           (\<forall>j<length cfgs.
              Cmd (backends s ! j) = spawned (startEnv senv j) \<and>
              (spawned (startEnv senv j) = None \<longrightarrow>
                 LogCouldNotStart (cfgName (cfgs ! j)) \<in> set (logs s))))"
  proof
    assume a: "configFile senv = ConfigLoaded cfgs \<and>
      (\<forall>j<length cfgs. parseURL senv (cfgs ! j) \<noteq> None \<and>
        \<not> (binaryMissing (startEnv senv j) \<and> \<not> buildOk (startEnv senv j)))"
    let ?st0 = "loadStrategy (strategyFile senv) initialState"
    have n0: "length (backends ?st0) = 0" by (simp add: loadStrategy_no_backends)
    have "\<forall>j<length cfgs. parseURL senv (cfgs ! j) \<noteq> None \<and>
             \<not> (binaryMissing (startEnv senv (length (backends ?st0) + j)) \<and>
                \<not> buildOk (startEnv senv (length (backends ?st0) + j)))"
      using a by (simp add: n0)
    from startAll_gets_through [OF this] obtain s where
      s: "startAll senv cfgs ?st0 = Continues s"
      and all: "\<forall>j<length cfgs.
              Cmd (backends s ! j) = spawned (startEnv senv j) \<and>
              (spawned (startEnv senv j) = None \<longrightarrow>
                 LogCouldNotStart (cfgName (cfgs ! j)) \<in> set (logs s))"
      by (auto simp: n0)
    let ?s' = "s\<lparr>proxyActive := True, logs := logs s @ [LogProxyRunning]\<rparr>"
    have "mainStartup senv = Continues ?s'" using a s by (simp add: mainStartup_loaded)
    moreover have "proxyActive ?s'" by simp
    moreover have "\<forall>j<length cfgs.
              Cmd (backends ?s' ! j) = spawned (startEnv senv j) \<and>
              (spawned (startEnv senv j) = None \<longrightarrow>
                 LogCouldNotStart (cfgName (cfgs ! j)) \<in> set (logs ?s'))"
      using all by simp
    ultimately show "\<exists>s. mainStartup senv = Continues s \<and> proxyActive s \<and>
           (\<forall>j<length cfgs.
              Cmd (backends s ! j) = spawned (startEnv senv j) \<and>
              (spawned (startEnv senv j) = None \<longrightarrow>
                 LogCouldNotStart (cfgName (cfgs ! j)) \<in> set (logs s)))"
      by blast
  qed
qed

lemmas start_defs =
  handleStartOrRestartBackend_def startBackend_def setCmd_def Let_def upt_rec

lemmas startup_defs =
  mainStartup_def startupA_def newBackend_def initialState_def loadStrategy_def
  startBackend_def setCmd_def Let_def

theorem start_failure_outcomes_witness:
  "''B'' \<noteq> [] \<and>
   1 < length (backends (scenario\<lparr>backends := [backendA, backendB\<lparr>Cmd := None\<rparr>]\<rparr>)) \<and>
   Name (backends (scenario\<lparr>backends := [backendA, backendB\<lparr>Cmd := None\<rparr>]\<rparr>) ! 1) = ''B'' \<and>
   Cmd (backends (scenario\<lparr>backends := [backendA, backendB\<lparr>Cmd := None\<rparr>]\<rparr>) ! 1) = None \<and>
   list_all
     (\<lambda>j. Name (backends (scenario\<lparr>backends := [backendA, backendB\<lparr>Cmd := None\<rparr>]\<rparr>) ! j) \<noteq> ''B'')
     [0..<1] \<and>
   handleStartOrRestartBackend \<lparr>binaryMissing = True, buildOk = False, spawned = Some 22\<rparr> ''B''
       (scenario\<lparr>backends := [backendA, backendB\<lparr>Cmd := None\<rparr>]\<rparr>) =
     ProcessExited
       (scenario\<lparr>backends := [backendA, backendB\<lparr>Cmd := None\<rparr>],
                logs := [LogStarting ''B'', LogBuildingBinary, LogBuildError]\<rparr>) \<and>
   handleStartOrRestartBackend \<lparr>binaryMissing = False, buildOk = True, spawned = None\<rparr> ''B''
       (scenario\<lparr>backends := [backendA, backendB\<lparr>Cmd := None\<rparr>]\<rparr>) =
     Continues
       (JsonMessage ''Backend gestartet/neu gestartet'',
        scenario\<lparr>backends := [backendA, backendB\<lparr>Cmd := None\<rparr>],
                 logs := [LogStarting ''B'', LogCouldNotStart ''B'']\<rparr>) \<and>
   handleStartOrRestartBackend \<lparr>binaryMissing = False, buildOk = True, spawned = Some 22\<rparr> ''B''
       (scenario\<lparr>backends := [backendA, backendB\<lparr>Cmd := None\<rparr>],
                 logs := [LogStarting ''B'', LogCouldNotStart ''B'']\<rparr>) =
     Continues
       (JsonMessage ''Backend gestartet/neu gestartet'',
        scenario\<lparr>backends := [backendA, backendB\<lparr>Cmd := Some 22\<rparr>],
                 logs := [LogStarting ''B'', LogCouldNotStart ''B'', LogStarting ''B'',
                          LogAutomaticallyStarted ''B'']\<rparr>) \<and>
   configFile startupA = ConfigLoaded [\<lparr>cfgName = ''A'', cfgPort = 9001\<rparr>] \<and>
   exited (mainStartup
     (startupA\<lparr>startEnv := \<lambda>i. \<lparr>binaryMissing = True, buildOk = False, spawned = Some 11\<rparr>\<rparr>)) \<and>
   mainStartup
     (startupA\<lparr>startEnv := \<lambda>i. \<lparr>binaryMissing = True, buildOk = False, spawned = Some 11\<rparr>\<rparr>) =
     ProcessExited
       (initialState\<lparr>backends := [backendA\<lparr>Healthy := False, Cmd := None\<rparr>],
                     logs := [LogDecodeFailed, LogBuildingBinary, LogBuildError]\<rparr>) \<and>
   mainStartup
     (startupA\<lparr>startEnv := \<lambda>i. \<lparr>binaryMissing = False, buildOk = True, spawned = None\<rparr>\<rparr>) =
     Continues
       (initialState\<lparr>backends := [backendA\<lparr>Healthy := False, Cmd := None\<rparr>],
                     proxyActive := True,
                     logs := [LogDecodeFailed, LogCouldNotStart ''A'', LogProxyRunning]\<rparr>)"
proof -
  let ?st = "scenario\<lparr>backends := [backendA, backendB\<lparr>Cmd := None\<rparr>]\<rparr>"
  let ?cfgs = "[\<lparr>cfgName = ''A'', cfgPort = 9001\<rparr>]"
  let ?bad = "startupA\<lparr>startEnv := \<lambda>i. \<lparr>binaryMissing = True, buildOk = False, spawned = Some 11\<rparr>\<rparr>"
  let ?nospawn = "startupA\<lparr>startEnv := \<lambda>i. \<lparr>binaryMissing = False, buildOk = True, spawned = None\<rparr>\<rparr>"
  have h1: "''B'' \<noteq> []" by simp
  have h2: "1 < length (backends ?st)" by simp
  have h3: "Name (backends ?st ! 1) = ''B''" by (simp add: backendB_def)
  have h4: "\<forall>j<1. Name (backends ?st ! j) \<noteq> ''B''" by (simp add: backendA_def)
  have h4': "list_all (\<lambda>j. Name (backends ?st ! j) \<noteq> ''B'') [0..<1]"
    by (simp add: backendA_def)
  have h5: "Cmd (backends ?st ! 1) = None" by simp
  have hyp: "''B'' \<noteq> [] \<and> 1 < length (backends ?st) \<and> Name (backends ?st ! 1) = ''B'' \<and>
      (\<forall>j<1. Name (backends ?st ! j) \<noteq> ''B'')"
    using h1 h2 h3 h4 by blast
  have a: "handleStartOrRestartBackend \<lparr>binaryMissing = True, buildOk = False, spawned = Some 22\<rparr>
       ''B'' ?st =
     ProcessExited (?st\<lparr>logs := [LogStarting ''B'', LogBuildingBinary, LogBuildError]\<rparr>)"
    using start_failure_outcomes
      [where name = "''B''" and i = 1 and st = ?st
         and env = "\<lparr>binaryMissing = True, buildOk = False, spawned = Some 22\<rparr>",
       THEN conjunct1, THEN mp, OF hyp]
    by (simp add: scenario_def)
  have b: "handleStartOrRestartBackend \<lparr>binaryMissing = False, buildOk = True, spawned = None\<rparr>
       ''B'' ?st =
     Continues (JsonMessage ''Backend gestartet/neu gestartet'',
        ?st\<lparr>logs := [LogStarting ''B'', LogCouldNotStart ''B'']\<rparr>)"
    using start_failure_outcomes
      [where name = "''B''" and i = 1 and st = ?st
         and env = "\<lparr>binaryMissing = False, buildOk = True, spawned = None\<rparr>",
       THEN conjunct1, THEN mp, OF hyp]
    by (simp add: scenario_def)
  have c: "handleStartOrRestartBackend \<lparr>binaryMissing = False, buildOk = True, spawned = Some 22\<rparr>
       ''B'' (?st\<lparr>logs := [LogStarting ''B'', LogCouldNotStart ''B'']\<rparr>) =
     Continues
       (JsonMessage ''Backend gestartet/neu gestartet'',
        scenario\<lparr>backends := [backendA, backendB\<lparr>Cmd := Some 22\<rparr>],
                 logs := [LogStarting ''B'', LogCouldNotStart ''B'', LogStarting ''B'',
                          LogAutomaticallyStarted ''B'']\<rparr>)"
    by (simp add: start_defs scenario_defs)
  have cf: "configFile startupA = ConfigLoaded ?cfgs" by (simp add: startupA_def)
  have badhyp: "configFile ?bad = ConfigLoaded ?cfgs \<and> 0 < length ?cfgs \<and>
      binaryMissing (startEnv ?bad 0) \<and> \<not> buildOk (startEnv ?bad 0)"
    by (simp add: startupA_def)
  have d: "exited (mainStartup ?bad)"
    using start_failure_outcomes
      [where senv = ?bad and cfgs = ?cfgs and k = 0,
       THEN conjunct2, THEN conjunct1, THEN mp, OF badhyp]
    by (rule conjunct1)
  have e: "mainStartup ?bad =
     ProcessExited
       (initialState\<lparr>backends := [backendA\<lparr>Healthy := False, Cmd := None\<rparr>],
                     logs := [LogDecodeFailed, LogBuildingBinary, LogBuildError]\<rparr>)"
    by (simp add: startup_defs backendA_def)
  have f: "mainStartup ?nospawn =
     Continues
       (initialState\<lparr>backends := [backendA\<lparr>Healthy := False, Cmd := None\<rparr>],
                     proxyActive := True,
                     logs := [LogDecodeFailed, LogCouldNotStart ''A'', LogProxyRunning]\<rparr>)"
    by (simp add: startup_defs backendA_def)
  from h1 h2 h3 h5 h4' a b c cf d e f show ?thesis by blast
qed

text \<open>
  C7 as stated fails where the build fails: the proxy process does not keep running,
  neither in the start handler nor in the start of the proxy.
\<close>

theorem build_failure_exits_proxy:
  "handleStartOrRestartBackend \<lparr>binaryMissing = True, buildOk = False, spawned = None\<rparr> ''A''
       scenario =
     ProcessExited
       (scenario\<lparr>logs := [LogRestarting ''A'', LogBuildingBinary, LogBuildError],
                kills := [11]\<rparr>) \<and>
   exited (mainStartup
     (startupA\<lparr>startEnv := \<lambda>i. \<lparr>binaryMissing = True, buildOk = False, spawned = None\<rparr>\<rparr>))"
  by (simp add: start_defs scenario_defs mainStartup_def startupA_def exited_def
      newBackend_def initialState_def loadStrategy_def)

end
